theory Spec2Isabelle
  imports Main "HOL-Library.Word"
begin

unbundle bit_operations_syntax

section \<open>Data model\<close>

text \<open>
  The program is the single Go file \<^verbatim>\<open>main.go\<close> of \<^verbatim>\<open>gover\<close>. Go strings are byte
  sequences, modelled as \<^typ>\<open>string\<close>. A Go \<^verbatim>\<open>error\<close> value is modelled by its message;
  the only dynamic type the program ever tests for is \<^verbatim>\<open>*exec.ExitError\<close>, which gets a
  constructor of its own.
\<close>

datatype error = Error string | ExitError string

fun errMsg :: "error \<Rightarrow> string" where
  "errMsg (Error m) = m"
| "errMsg (ExitError m) = m"

text \<open>\<^verbatim>\<open>fmt.Errorf(prefix + "%v", err)\<close>: a fresh plain error whose message is the prefix
  followed by the message of \<open>err\<close>.\<close>

definition Errorf :: "string \<Rightarrow> error \<Rightarrow> error" where
  "Errorf prefix err = Error (prefix @ errMsg err)"

text \<open>A run-time panic of the Go program (the only one the code can raise by itself is an
  index out of range).\<close>

datatype panic = IndexOutOfRange

text \<open>\<^verbatim>\<open>*os.File\<close>: the path it was created at, the bytes written so far and the cursor.\<close>

record osfile =
  fname :: string
  fdata :: string
  fpos :: nat

text \<open>\<^verbatim>\<open>*http.Response\<close>: the status code and the body that the transport delivers.\<close>

record response =
  StatusCode :: nat
  Body :: string

text \<open>\<^verbatim>\<open>*user.User\<close>: only \<^verbatim>\<open>HomeDir\<close> is read.\<close>

record user =
  HomeDir :: string

text \<open>\<^verbatim>\<open>*exec.Cmd\<close>: program path, arguments, working directory and environment
  (\<open>None\<close> when \<^verbatim>\<open>cmd.Env\<close> is left nil).\<close>

record cmd =
  cmdPath :: string
  cmdArgs :: "string list"
  cmdDir :: string
  cmdEnv :: "string list option"

text \<open>
  Every call that leaves the program (file system, network, OpenPGP library, child
  processes, standard output, the log) is recorded as an event, together with its outcome.
  \<open>EvUntar\<close> records, besides the archive handle passed to \<^verbatim>\<open>Untar\<close>, the state of the
  signature handle that is open at that moment.
\<close>

datatype event =
    EvPrintf string "string list"
  | EvPrintln string
  | EvLogPrintf string "string list"
  | EvFatalf string "string list"
  | EvFatalln string
  | EvMkdirAll string "32 word" "error option"
  | EvPledge string
  | EvUnveil string string
  | EvUnveilBlock
  | EvStat string "error option"
  | EvCreate string "error option"
  | EvHttpGet string "error + response"
  | EvCopy osfile "error option"
  | EvSeek osfile "error option"
  | EvClose string
  | EvReadArmoredKeyRing "error option"
  | EvCheckSignature osfile osfile "error option"
  | EvUntar osfile osfile string "error option"
  | EvOutput "string list" "error + string"
  | EvRun cmd "error option"
  | EvReadDir string "error + string list"

text \<open>
  The world the process runs in. The first group of fields are constants of the build and
  pure functions of the Go standard library that are not part of the repository; the
  second group gives the outcome of every external call. An outcome may depend on
  everything that happened before the call, so each of these functions takes the list of
  events so far as its first argument.

  \<^item> \<open>io_Copy\<close> answers \<open>None\<close> when the whole body was copied, or \<open>Some (n, err)\<close> when
    the copy stopped with \<open>err\<close> after \<open>n\<close> bytes.
  \<^item> \<open>openpgp_CheckArmoredDetachedSignature\<close> answers the error (if any) and the number
    of bytes it consumed from the signed file and from the signature file.
  \<^item> \<open>Untar\<close> is a function of the repository whose file is not among the sources; it is
    a parameter here.
\<close>

record sys =
  GOOS :: string
  pubKey :: string
  filepath_Join :: "string list \<Rightarrow> string"
  filepath_ListSeparator :: char
  path_Dir :: "string \<Rightarrow> string"
  strings_ToLower :: "string \<Rightarrow> string"
  strings_TrimSpace :: "string \<Rightarrow> string"
  os_Getenv :: "string \<Rightarrow> string"
  os_Environ :: "string list"
  user_Current :: "error + user"
  openpgp_ReadArmoredKeyRing :: "string \<Rightarrow> error + string list"
  os_MkdirAll :: "event list \<Rightarrow> string \<Rightarrow> 32 word \<Rightarrow> error option"
  os_Stat :: "event list \<Rightarrow> string \<Rightarrow> error option"
  os_Create :: "event list \<Rightarrow> string \<Rightarrow> error option"
  http_Get :: "event list \<Rightarrow> string \<Rightarrow> error + response"
  io_Copy :: "event list \<Rightarrow> osfile \<Rightarrow> string \<Rightarrow> (nat \<times> error) option"
  file_Seek :: "event list \<Rightarrow> osfile \<Rightarrow> error option"
  openpgp_CheckArmoredDetachedSignature ::
    "event list \<Rightarrow> string list \<Rightarrow> osfile \<Rightarrow> osfile \<Rightarrow> error option \<times> nat \<times> nat"
  Untar :: "event list \<Rightarrow> osfile \<Rightarrow> string \<Rightarrow> error option"
  cmd_Output :: "event list \<Rightarrow> string list \<Rightarrow> error + string"
  cmd_Run :: "event list \<Rightarrow> cmd \<Rightarrow> error option"
  os_ReadDir :: "event list \<Rightarrow> string \<Rightarrow> error + string list"

text \<open>How a process ends: \<^verbatim>\<open>os.Exit(n)\<close> (\<^verbatim>\<open>log.Fatalf\<close> exits with 1) or a panic.\<close>

datatype exit = Exit nat | Panicked panic

section \<open>Strings\<close>

text \<open>\<^verbatim>\<open>strings.Index(s, substr)\<close>: the index of the first occurrence of \<open>substr\<close> in \<open>s\<close>,
  or \<open>-1\<close>.\<close>

fun indexFrom :: "string \<Rightarrow> string \<Rightarrow> int \<Rightarrow> int" where
  "indexFrom [] substr i = (if substr = [] then i else - 1)"
| "indexFrom (c # s) substr i =
     (if take (length substr) (c # s) = substr then i else indexFrom s substr (i + 1))"

definition Index :: "string \<Rightarrow> string \<Rightarrow> int" where
  "Index s substr = indexFrom s substr 0"

text \<open>\<^verbatim>\<open>strings.ToLower\<close> on ASCII text: the letters \<open>A\<close> to \<open>Z\<close> become \<open>a\<close> to \<open>z\<close>, every
  other byte stays. (Go also maps letters beyond ASCII; the model of \<open>dedupEnv\<close> therefore
  takes the function as a parameter, and this one is used where a concrete run is
  evaluated.)\<close>

definition toLowerByte :: "char \<Rightarrow> char" where
  "toLowerByte c =
     (case map_of (zip ''ABCDEFGHIJKLMNOPQRSTUVWXYZ'' ''abcdefghijklmnopqrstuvwxyz'') c of
        Some l \<Rightarrow> l
      | None \<Rightarrow> c)"

definition asciiToLower :: "string \<Rightarrow> string" where
  "asciiToLower s = map toLowerByte s"

text \<open>\<^verbatim>\<open>strings.TrimSpace\<close> on ASCII text: leading and trailing space, tab, line feed, vertical
  tab, form feed and carriage return are removed.\<close>

definition asciiSpace :: "char \<Rightarrow> bool" where
  "asciiSpace c = (c \<in> set [CHR '' '', CHR 0x09, CHR 0x0A, CHR 0x0B, CHR 0x0C, CHR 0x0D])"

definition asciiTrimSpace :: "string \<Rightarrow> string" where
  "asciiTrimSpace s = rev (dropWhile asciiSpace (rev (dropWhile asciiSpace s)))"

section \<open>Environment composition: \<^verbatim>\<open>dedupEnv\<close>\<close>

text \<open>
  The loop of \<^verbatim>\<open>dedupEnv\<close>, with its two variables \<open>out\<close> and \<open>saw\<close> as accumulators.
  \<open>ToLower\<close> stands for \<^verbatim>\<open>strings.ToLower\<close>. The assignment \<^verbatim>\<open>out[dupIdx] = kv\<close> panics in
  Go when the index is out of range; that branch is part of the model.
\<close>

fun dedupLoop ::
  "(string \<Rightarrow> string) \<Rightarrow> bool \<Rightarrow> string list \<Rightarrow> string list \<Rightarrow> (string \<rightharpoonup> nat)
     \<Rightarrow> panic + string list" where
  "dedupLoop ToLower caseInsensitive [] out saw = Inr out"
| "dedupLoop ToLower caseInsensitive (kv # env) out saw =
     (let eq = Index kv ''='' in
      if eq < 1 then dedupLoop ToLower caseInsensitive env (out @ [kv]) saw
      else
        let k = take (nat eq) kv;
            k = (if caseInsensitive then ToLower k else k)
        in case saw k of
             Some dupIdx \<Rightarrow>
               if dupIdx < length out
               then dedupLoop ToLower caseInsensitive env (out[dupIdx := kv]) saw
               else Inl IndexOutOfRange
           | None \<Rightarrow>
               dedupLoop ToLower caseInsensitive env (out @ [kv]) (saw(k \<mapsto> length out)))"

definition dedupEnv ::
  "(string \<Rightarrow> string) \<Rightarrow> bool \<Rightarrow> string list \<Rightarrow> panic + string list" where
  "dedupEnv ToLower caseInsensitive env = dedupLoop ToLower caseInsensitive env [] Map.empty"

subsection \<open>Vocabulary for the properties of \<^verbatim>\<open>dedupEnv\<close>\<close>

text \<open>An entry takes part in de-duplication when its first \<open>=\<close> is at index 1 or later
  (the loop's test \<^verbatim>\<open>eq < 1\<close> is false).\<close>

definition wellFormed :: "string \<Rightarrow> bool" where
  "wellFormed kv = (\<not> Index kv ''='' < 1)"

text \<open>The key the loop looks up in \<open>saw\<close> for an entry.\<close>

definition envKey :: "(string \<Rightarrow> string) \<Rightarrow> bool \<Rightarrow> string \<Rightarrow> string" where
  "envKey ToLower caseInsensitive kv =
     (let k = take (nat (Index kv ''='')) kv in if caseInsensitive then ToLower k else k)"

definition hasKey :: "(string \<Rightarrow> string) \<Rightarrow> bool \<Rightarrow> string \<Rightarrow> string \<Rightarrow> bool" where
  "hasKey ToLower c k kv = (wellFormed kv \<and> envKey ToLower c kv = k)"

text \<open>The keys of the well-formed entries of a list, in order.\<close>

definition keysOf :: "(string \<Rightarrow> string) \<Rightarrow> bool \<Rightarrow> string list \<Rightarrow> string list" where
  "keysOf ToLower c env = map (envKey ToLower c) (filter wellFormed env)"

text \<open>A list with every element that occurred before deleted: first occurrences only, in
  their order.\<close>

definition firstOccurrences :: "'a list \<Rightarrow> 'a list" where
  "firstOccurrences xs = rev (remdups (rev xs))"

text \<open>One iteration of the loop, seen on \<open>out\<close> alone: an entry whose key is already present
  replaces the entry with that key, any other entry is appended.\<close>

definition dedupStep ::
  "(string \<Rightarrow> string) \<Rightarrow> bool \<Rightarrow> string list \<Rightarrow> string \<Rightarrow> string list" where
  "dedupStep ToLower c out kv =
     (if wellFormed kv \<and> list_ex (hasKey ToLower c (envKey ToLower c kv)) out
      then map (\<lambda>e. if hasKey ToLower c (envKey ToLower c kv) e then kv else e) out
      else out @ [kv])"

text \<open>The loop invariant that ties \<open>saw\<close> to \<open>out\<close>: \<open>saw\<close> holds exactly the positions of the
  well-formed entries of \<open>out\<close>, under their keys.\<close>

definition sawInv ::
  "(string \<Rightarrow> string) \<Rightarrow> bool \<Rightarrow> string list \<Rightarrow> (string \<rightharpoonup> nat) \<Rightarrow> bool" where
  "sawInv ToLower c out saw =
     ((\<forall>k i. saw k = Some i \<longrightarrow> i < length out \<and> hasKey ToLower c k (out ! i)) \<and>
      (\<forall>i < length out. wellFormed (out ! i) \<longrightarrow> saw (envKey ToLower c (out ! i)) = Some i))"

section \<open>Root resolution: \<^verbatim>\<open>homedir\<close>, \<^verbatim>\<open>goroot\<close>\<close>

definition homedir :: "sys \<Rightarrow> error + string" where
  "homedir w =
     (if GOOS w = ''plan9'' then
        (let dir = os_Getenv w ''home'' in
         if dir \<noteq> [] then Inr dir
         else Inl (Error ''can't find user home directory; %USERPROFILE% is empty''))
      else if GOOS w = ''windows'' then
        (let dir = os_Getenv w ''USERPROFILE'' in
         if dir \<noteq> [] then Inr dir
         else Inl (Error ''can't find user home directory; %USERPROFILE% is empty''))
      else
        (let dir = os_Getenv w ''HOME'' in
         if dir \<noteq> [] then Inr dir
         else case user_Current w of
                Inr u \<Rightarrow>
                  if HomeDir u \<noteq> [] then Inr (HomeDir u)
                  else Inl (Error ''can't find user home directory; $HOME is empty'')
              | Inl err \<Rightarrow> Inl (Error ''can't find user home directory; $HOME is empty'')))"

definition goroot :: "sys \<Rightarrow> string \<Rightarrow> error + string" where
  "goroot w version =
     (case homedir w of
        Inl err \<Rightarrow> Inl (Errorf ''failed to get home directory: '' err)
      | Inr home \<Rightarrow> Inr (filepath_Join w [home, ''sdk'', version]))"

subsection \<open>Paths on a slash-separated platform\<close>

text \<open>
  \<^verbatim>\<open>filepath.Join\<close>, \<^verbatim>\<open>filepath.Clean\<close>, \<^verbatim>\<open>filepath.IsAbs\<close> and \<^verbatim>\<open>path.Dir\<close> of the Go standard
  library as they behave where the separator is \<open>/\<close>. They instantiate the fields
  \<open>filepath_Join\<close> and \<open>path_Dir\<close> of a concrete world.
\<close>

fun splitSlash :: "string \<Rightarrow> string list" where
  "splitSlash [] = [[]]"
| "splitSlash (c # s) =
     (if c = CHR ''/'' then [] # splitSlash s
      else (case splitSlash s of [] \<Rightarrow> [[c]] | x # xs \<Rightarrow> (c # x) # xs))"

text \<open>The components kept so far are held in reverse.\<close>

fun cleanStep :: "bool \<Rightarrow> string list \<Rightarrow> string \<Rightarrow> string list" where
  "cleanStep rooted st el =
     (if el = [] \<or> el = ''.'' then st
      else if el = ''..'' then
        (case st of
           [] \<Rightarrow> if rooted then [] else [''..'']
         | t # rest \<Rightarrow> if t = ''..'' then ''..'' # st else rest)
      else el # st)"

fun joinSlash :: "string list \<Rightarrow> string" where
  "joinSlash [] = []"
| "joinSlash [x] = x"
| "joinSlash (x # y # ys) = x @ ''/'' @ joinSlash (y # ys)"

definition unixIsAbs :: "string \<Rightarrow> bool" where
  "unixIsAbs p = (take 1 p = ''/'')"

definition unixClean :: "string \<Rightarrow> string" where
  "unixClean p =
     (if p = [] then ''.''
      else
        let rooted = unixIsAbs p;
            st = foldl (cleanStep rooted) [] (splitSlash p);
            res = (if rooted then ''/'' else []) @ joinSlash (rev st)
        in if res = [] then ''.'' else res)"

definition unixJoin :: "string list \<Rightarrow> string" where
  "unixJoin elem =
     (case dropWhile (\<lambda>e. e = []) elem of
        [] \<Rightarrow> []
      | es \<Rightarrow> unixClean (joinSlash es))"

definition unixDir :: "string \<Rightarrow> string" where
  "unixDir p = unixClean (rev (dropWhile (\<lambda>c. c \<noteq> CHR ''/'') (rev p)))"

section \<open>The fetcher: \<^verbatim>\<open>fetch\<close>\<close>

text \<open>
  Every function below takes the world \<open>w\<close> and the events \<open>h\<close> that happened before the
  call, and returns its result together with the events it added. \<^verbatim>\<open>fetch\<close> never reads
  \<^verbatim>\<open>fResp.StatusCode\<close>. (The deferred \<^verbatim>\<open>fResp.Body.Close()\<close> has no effect the rest of the
  program can see and is left out.)
\<close>

definition fetch :: "sys \<Rightarrow> event list \<Rightarrow> string \<Rightarrow> string \<Rightarrow> (error + osfile) \<times> event list" where
  "fetch w h a b =
     (let e0 = [EvPrintf ''Fetching %q\<newline>'' [a]];
          r1 = os_Create w (h @ e0) b;
          e1 = e0 @ [EvCreate b r1]
      in case r1 of
           Some err \<Rightarrow> (Inl err, e1)
         | None \<Rightarrow>
            (let f = \<lparr>fname = b, fdata = [], fpos = 0\<rparr>;
                 r2 = http_Get w (h @ e1) a;
                 e2 = e1 @ [EvHttpGet a r2]
             in case r2 of
                  Inl err \<Rightarrow> (Inl err, e2)
                | Inr fResp \<Rightarrow>
                   (let r3 = io_Copy w (h @ e2) f (Body fResp);
                        n = (case r3 of
                               None \<Rightarrow> length (Body fResp)
                             | Some (n, err) \<Rightarrow> min n (length (Body fResp)));
                        f = f\<lparr>fdata := take n (Body fResp), fpos := n\<rparr>;
                        e3 = e2 @ [EvCopy f (map_option snd r3)]
                    in case r3 of
                         Some (n, err) \<Rightarrow> (Inl err, e3)
                       | None \<Rightarrow>
                          (let r4 = file_Seek w (h @ e3) f;
                               e4 = e3 @ [EvSeek f r4]
                           in case r4 of
                                Some err \<Rightarrow> (Inl err, e4)
                              | None \<Rightarrow> (Inr (f\<lparr>fpos := 0\<rparr>), e4)))))"

section \<open>Fetch, verify, extract: \<^verbatim>\<open>fetchify\<close>\<close>

text \<open>Reading \<open>n\<close> bytes moves the cursor, at most to the end of the file.\<close>

definition advance :: "osfile \<Rightarrow> nat \<Rightarrow> osfile" where
  "advance f n = f\<lparr>fpos := min (length (fdata f)) (fpos f + n)\<rparr>"

text \<open>
  The two deferred calls run when the function returns after both fetches succeeded:
  \<^verbatim>\<open>sig.Close()\<close> first, then \<^verbatim>\<open>tbz.Close()\<close>. The only \<^verbatim>\<open>Seek\<close> after the signature check is
  on \<open>tbz\<close>.
\<close>

definition fetchify :: "sys \<Rightarrow> event list \<Rightarrow> string \<Rightarrow> string \<Rightarrow> error option \<times> event list" where
  "fetchify w h goURL fp =
     (case openpgp_ReadArmoredKeyRing w (pubKey w) of
        Inl err \<Rightarrow> (Some err, [EvReadArmoredKeyRing (Some err)])
      | Inr kr \<Rightarrow>
         (let e0 = [EvReadArmoredKeyRing None] in
          case fetch w (h @ e0) goURL fp of
            (Inl err, ev1) \<Rightarrow> (Some err, e0 @ ev1)
          | (Inr tbz, ev1) \<Rightarrow>
             (let e1 = e0 @ ev1 in
              case fetch w (h @ e1) (goURL @ ''.asc'') (fp @ ''.asc'') of
                (Inl err, ev2) \<Rightarrow> (Some err, e1 @ ev2)
              | (Inr sig, ev2) \<Rightarrow>
                 (let e2 = e1 @ ev2 in
                  case openpgp_CheckArmoredDetachedSignature w (h @ e2) kr tbz sig of
                    (r3, n, m) \<Rightarrow>
                     (let e3 = e2 @ [EvCheckSignature tbz sig r3];
                          tbz = advance tbz n;
                          sig = advance sig m
                      in case r3 of
                           Some err \<Rightarrow> (Some err, e3 @ [EvClose (fname sig), EvClose (fname tbz)])
                         | None \<Rightarrow>
                            (let e4 = e3 @ [EvPrintln ''Signature OK.''];
                                 r5 = file_Seek w (h @ e4) tbz;
                                 e5 = e4 @ [EvSeek tbz r5]
                             in case r5 of
                                  Some err \<Rightarrow>
                                    (Some err, e5 @ [EvClose (fname sig), EvClose (fname tbz)])
                                | None \<Rightarrow>
                                   (let tbz = tbz\<lparr>fpos := 0\<rparr>;
                                        r6 = Untar w (h @ e5) tbz (path_Dir w fp);
                                        e6 = e5 @ [EvUntar tbz sig (path_Dir w fp) r6]
                                    in (r6, e6 @ [EvClose (fname sig), EvClose (fname tbz)]))))))))"

section \<open>The installer: \<^verbatim>\<open>installVer\<close>\<close>

definition makeScript :: "sys \<Rightarrow> string" where
  "makeScript w =
     (if GOOS w = ''plan9'' then ''make.rc''
      else if GOOS w = ''windows'' then ''make.bat''
      else ''make.bash'')"

definition caseInsensitiveEnv :: "sys \<Rightarrow> bool" where
  "caseInsensitiveEnv w = (GOOS w = ''windows'')"

definition exe :: "sys \<Rightarrow> string" where
  "exe w = (if GOOS w = ''windows'' then ''.exe'' else [])"

text \<open>
  The mode \<^verbatim>\<open>0755\<close> is octal: 493. When \<^verbatim>\<open>os.Stat\<close> of the \<^verbatim>\<open>go\<close> directory succeeds the
  whole \<^verbatim>\<open>if\<close> block is skipped and the function goes on with the build commands.
\<close>

definition installVer :: "sys \<Rightarrow> event list \<Rightarrow> string \<Rightarrow> string \<Rightarrow> error option \<times> event list" where
  "installVer w h root version =
     (let goURL = ''https://dl.google.com/go/go'' @ version @ ''.src.tar.gz'';
          goFP = filepath_Join w [root, version, ''go'' @ version @ ''.src.tar.gz''];
          r0 = os_Stat w h (filepath_Join w [root, version, ''go'']);
          e0 = [EvStat (filepath_Join w [root, version, ''go'']) r0]
      in case (case r0 of
                 None \<Rightarrow> (None, e0)
               | Some serr \<Rightarrow>
                  (let r1 = os_MkdirAll w (h @ e0) (filepath_Join w [root, version]) 493;
                       e1 = e0 @ [EvMkdirAll (filepath_Join w [root, version]) 493 r1]
                   in case r1 of
                        Some err \<Rightarrow> (Some (Errorf ''failed to create source directory: '' err), e1)
                      | None \<Rightarrow>
                          (case fetchify w (h @ e1) goURL goFP of
                             (Some err, ev) \<Rightarrow> (Some (Errorf ''failed to verify: '' err), e1 @ ev)
                           | (None, ev) \<Rightarrow> (None, e1 @ ev)))) of
           (Some err, e2) \<Rightarrow> (Some err, e2)
         | (None, e2) \<Rightarrow>
            (let c = \<lparr>cmdPath = filepath_Join w [root, version, ''go'', ''src'', makeScript w],
                      cmdArgs = [],
                      cmdDir = filepath_Join w [root, version, ''go'', ''src''],
                      cmdEnv = None\<rparr>
             in case (if GOOS w = ''windows'' then
                        (let r3 = cmd_Output w (h @ e2) [''go'', ''env'', ''GOROOT''];
                             e3 = e2 @ [EvOutput [''go'', ''env'', ''GOROOT''] r3]
                         in case r3 of
                              Inl err \<Rightarrow>
                                (Inl (Errorf ''failed to detect an existing go installation for bootstrap: '' err), e3)
                            | Inr out \<Rightarrow>
                                (Inr (c\<lparr>cmdEnv := Some (os_Environ w @
                                         [''GOROOT_BOOTSTRAP='' @ strings_TrimSpace w out])\<rparr>), e3))
                      else (Inr c, e2)) of
                  (Inl err, e3) \<Rightarrow> (Some err, e3)
                | (Inr c, e3) \<Rightarrow>
                   (let r4 = cmd_Run w (h @ e3) c;
                        e4 = e3 @ [EvRun c r4]
                    in case r4 of
                         Some err \<Rightarrow> (Some (Errorf ''failed to build go: '' err), e4)
                       | None \<Rightarrow> (None, e4))))"

section \<open>The dispatcher: \<^verbatim>\<open>main\<close>\<close>

text \<open>
  \<open>args\<close> is \<^verbatim>\<open>os.Args\<close>. \<^verbatim>\<open>log.Fatalf\<close> writes its message and exits with status 1. The
  results of \<^verbatim>\<open>protect.Pledge\<close> and \<^verbatim>\<open>protect.Unveil\<close> are discarded by the program.
\<close>

definition main :: "sys \<Rightarrow> string list \<Rightarrow> exit \<times> event list" where
  "main w args =
     (case goroot w ''gover'' of
        Inl err \<Rightarrow> (Exit 1, [EvFatalf ''gover: %v'' [errMsg err]])
      | Inr root \<Rightarrow>
         (let r0 = os_MkdirAll w [] root 493;
              e0 = [EvMkdirAll root 493 r0]
          in case r0 of
               Some err \<Rightarrow>
                 (Exit 1, e0 @ [EvFatalf ''failed to create gover directory: %v\<newline>'' [errMsg err]])
             | None \<Rightarrow>
                (let e1 = e0 @
                       [EvPledge ''stdio tty unveil rpath cpath wpath proc dns inet fattr exec'',
                        EvUnveil ''/etc'' ''r'', EvUnveil root ''rwxc'', EvUnveilBlock]
                 in
                 if length args = 1 then
                   (Exit 1, e1 @ [EvFatalf ''gover: usage: gover [download|version|list]'' []])
                 else if length args < 2 then (Panicked IndexOutOfRange, e1)
                 else if args ! 1 = ''download'' then
                   (if length args = 3 then
                      (case installVer w e1 root (args ! 2) of
                         (Some err, ev) \<Rightarrow>
                           (Exit 1, e1 @ ev @ [EvFatalf ''gover: %v'' [errMsg err]])
                       | (None, ev) \<Rightarrow>
                           (Exit 0, e1 @ ev @
                              [EvLogPrintf ''Success. You may now run 'gover %s'!'' [args ! 2]]))
                    else (Exit 1, e1 @ [EvFatalf ''gover: usage: gover download [version]'' []]))
                 else if args ! 1 = ''list'' then
                   (let r2 = os_ReadDir w e1 root;
                        e2 = e1 @ [EvReadDir root r2]
                    in case r2 of
                         Inl err \<Rightarrow> (Exit 1, e2 @ [EvFatalln (errMsg err)])
                       | Inr entries \<Rightarrow> (Exit 0, e2 @ map EvPrintln entries))
                 else
                   (let version = args ! 1;
                        gobin = filepath_Join w [root, version, ''go'', ''bin'', ''go'' @ exe w];
                        gorootPath = filepath_Join w [root, version, ''go''];
                        r2 = os_Stat w e1 gobin;
                        e2 = e1 @ [EvStat gobin r2]
                    in case r2 of
                         Some err \<Rightarrow>
                           (Exit 1, e2 @
                              [EvFatalf ''gover: not downloaded. Run 'gover download' to install to %v''
                                 [root]])
                       | None \<Rightarrow>
                          (let newPath = filepath_Join w [root, version, ''go'', ''bin''];
                               p = os_Getenv w ''PATH'';
                               newPath = (if p \<noteq> [] then newPath @ [filepath_ListSeparator w] @ p
                                          else newPath)
                           in case dedupEnv (strings_ToLower w) (caseInsensitiveEnv w)
                                     (os_Environ w @ [''GOROOT='' @ gorootPath, ''PATH='' @ newPath]) of
                                Inl pn \<Rightarrow> (Panicked pn, e2)
                              | Inr env \<Rightarrow>
                                 (let c = \<lparr>cmdPath = gobin, cmdArgs = drop 2 args, cmdDir = [],
                                           cmdEnv = Some env\<rparr>;
                                      r3 = cmd_Run w e2 c;
                                      e3 = e2 @ [EvRun c r3]
                                  in case r3 of
                                       None \<Rightarrow> (Exit 0, e3)
                                     | Some (ExitError m) \<Rightarrow> (Exit 1, e3)
                                     | Some (Error m) \<Rightarrow>
                                         (Exit 1, e3 @
                                            [EvFatalf ''gover: failed to execute %v: %v''
                                               [gobin, m]])))))))"

text \<open>A mode is owner-only when it grants nothing to group and others (octal \<open>077\<close> is 63).\<close>

definition ownerOnly :: "32 word \<Rightarrow> bool" where
  "ownerOnly perm = (perm AND 63 = 0)"

section \<open>Vocabulary for the properties of the installer\<close>

text \<open>The platform's home variable, as \<^verbatim>\<open>homedir\<close> selects it.\<close>

definition homeVar :: "sys \<Rightarrow> string" where
  "homeVar w =
     (if GOOS w = ''plan9'' then ''home''
      else if GOOS w = ''windows'' then ''USERPROFILE''
      else ''HOME'')"

text \<open>The events that only \<^verbatim>\<open>fetch\<close> produces.\<close>

fun fetchEvent :: "event \<Rightarrow> bool" where
  "fetchEvent (EvPrintf f as) = True"
| "fetchEvent (EvCreate p r) = True"
| "fetchEvent (EvHttpGet u r) = True"
| "fetchEvent (EvCopy f r) = True"
| "fetchEvent (EvSeek f r) = True"
| "fetchEvent e = False"

text \<open>The events of the download branch of \<^verbatim>\<open>installVer\<close>: creating the version directory,
  fetching, verifying, extracting.\<close>

fun downloadEvent :: "event \<Rightarrow> bool" where
  "downloadEvent (EvMkdirAll p m r) = True"
| "downloadEvent (EvReadArmoredKeyRing r) = True"
| "downloadEvent (EvCheckSignature t s r) = True"
| "downloadEvent (EvPrintln l) = True"
| "downloadEvent (EvUntar t s d r) = True"
| "downloadEvent (EvClose f) = True"
| "downloadEvent e = fetchEvent e"

text \<open>The events of the build commands of \<^verbatim>\<open>installVer\<close>.\<close>

fun buildEvent :: "event \<Rightarrow> bool" where
  "buildEvent (EvOutput args r) = True"
| "buildEvent (EvRun c r) = True"
| "buildEvent e = False"

text \<open>
  The two halves of the body of \<^verbatim>\<open>installVer\<close>, named so that they can be reasoned about one
  after the other: the \<^verbatim>\<open>if\<close> block guarded by \<^verbatim>\<open>os.Stat\<close>, and the build commands after
  it (\<open>e2\<close> are the events of the first half). Lemma \<open>installVer_phases\<close> below shows that
  \<open>installVer\<close> is their composition.
\<close>

definition downloadPhase ::
  "sys \<Rightarrow> event list \<Rightarrow> string \<Rightarrow> string \<Rightarrow> error option \<times> event list" where
  "downloadPhase w h root version =
     (let goURL = ''https://dl.google.com/go/go'' @ version @ ''.src.tar.gz'';
          goFP = filepath_Join w [root, version, ''go'' @ version @ ''.src.tar.gz''];
          r0 = os_Stat w h (filepath_Join w [root, version, ''go'']);
          e0 = [EvStat (filepath_Join w [root, version, ''go'']) r0]
      in case r0 of
           None \<Rightarrow> (None, e0)
         | Some serr \<Rightarrow>
            (let r1 = os_MkdirAll w (h @ e0) (filepath_Join w [root, version]) 493;
                 e1 = e0 @ [EvMkdirAll (filepath_Join w [root, version]) 493 r1]
             in case r1 of
                  Some err \<Rightarrow> (Some (Errorf ''failed to create source directory: '' err), e1)
                | None \<Rightarrow>
                    (case fetchify w (h @ e1) goURL goFP of
                       (Some err, ev) \<Rightarrow> (Some (Errorf ''failed to verify: '' err), e1 @ ev)
                     | (None, ev) \<Rightarrow> (None, e1 @ ev))))"

definition buildPhase ::
  "sys \<Rightarrow> event list \<Rightarrow> string \<Rightarrow> string \<Rightarrow> event list \<Rightarrow> error option \<times> event list" where
  "buildPhase w h root version e2 =
     (let c = \<lparr>cmdPath = filepath_Join w [root, version, ''go'', ''src'', makeScript w],
               cmdArgs = [],
               cmdDir = filepath_Join w [root, version, ''go'', ''src''],
               cmdEnv = None\<rparr>
      in case (if GOOS w = ''windows'' then
                 (let r3 = cmd_Output w (h @ e2) [''go'', ''env'', ''GOROOT''];
                      e3 = e2 @ [EvOutput [''go'', ''env'', ''GOROOT''] r3]
                  in case r3 of
                       Inl err \<Rightarrow>
                         (Inl (Errorf ''failed to detect an existing go installation for bootstrap: '' err), e3)
                     | Inr out \<Rightarrow>
                         (Inr (c\<lparr>cmdEnv := Some (os_Environ w @
                                  [''GOROOT_BOOTSTRAP='' @ strings_TrimSpace w out])\<rparr>), e3))
               else (Inr c, e2)) of
           (Inl err, e3) \<Rightarrow> (Some err, e3)
         | (Inr c, e3) \<Rightarrow>
            (let r4 = cmd_Run w (h @ e3) c;
                 e4 = e3 @ [EvRun c r4]
             in case r4 of
                  Some err \<Rightarrow> (Some (Errorf ''failed to build go: '' err), e4)
                | None \<Rightarrow> (None, e4)))"

section \<open>Concrete worlds\<close>

text \<open>
  A Linux host on which everything succeeds: \<open>HOME\<close> is \<open>/home/u\<close>, no version is installed
  yet, the server answers \<open>200\<close> with the archive and its signature, and the signature
  check succeeds after reading both files to their end.
\<close>

definition world0 :: sys where
  "world0 =
     \<lparr>GOOS = ''linux'',
      pubKey = ''PUBLIC KEY'',
      filepath_Join = unixJoin,
      filepath_ListSeparator = CHR '':'',
      path_Dir = unixDir,
      strings_ToLower = asciiToLower,
      strings_TrimSpace = asciiTrimSpace,
      os_Getenv = (\<lambda>n. if n = ''HOME'' then ''/home/u'' else if n = ''PATH'' then ''/bin'' else []),
      os_Environ = [''HOME=/home/u'', ''PATH=/bin''],
      user_Current = Inl (Error ''user: Current not implemented''),
      openpgp_ReadArmoredKeyRing = (\<lambda>k. Inr [k]),
      os_MkdirAll = (\<lambda>h p m. None),
      os_Stat = (\<lambda>h p. Some (Error ''no such file or directory'')),
      os_Create = (\<lambda>h p. None),
      http_Get = (\<lambda>h u. Inr \<lparr>StatusCode = 200,
                               Body = (if u = ''https://dl.google.com/go/go1.99.src.tar.gz.asc''
                                       then ''SIG'' else ''TARBALL'')\<rparr>),
      io_Copy = (\<lambda>h f body. None),
      file_Seek = (\<lambda>h f. None),
      openpgp_CheckArmoredDetachedSignature =
        (\<lambda>h kr tbz sig. (None, length (fdata tbz), length (fdata sig))),
      Untar = (\<lambda>h f d. None),
      cmd_Output = (\<lambda>h args. Inr ''/usr/lib/go\<newline>''),
      cmd_Run = (\<lambda>h c. None),
      os_ReadDir = (\<lambda>h p. Inr [''1.20'', ''1.21''])\<rparr>"

text \<open>The same host when the signature does not match the archive.\<close>

definition worldBadSignature :: sys where
  "worldBadSignature =
     world0\<lparr>openpgp_CheckArmoredDetachedSignature :=
       (\<lambda>h kr tbz sig. (Some (Error ''openpgp: invalid signature: RSA verification failure''),
                        length (fdata tbz), length (fdata sig)))\<rparr>"

text \<open>The same host when the \<^verbatim>\<open>go\<close> directory of every version exists and the build script
  fails.\<close>

definition worldInstalledBuildFails :: sys where
  "worldInstalledBuildFails =
     world0\<lparr>os_Stat := (\<lambda>h p. None),
            cmd_Run := (\<lambda>h c. Some (ExitError ''exit status 2''))\<rparr>"

text \<open>The same host when the server answers every request with \<open>404\<close>.\<close>

definition world404 :: sys where
  "world404 =
     world0\<lparr>http_Get := (\<lambda>h u. Inr \<lparr>StatusCode = 404, Body = ''404 page not found''\<rparr>)\<rparr>"

text \<open>The same host when \<open>HOME\<close> holds a relative path, and when no home directory can be
  found at all.\<close>

definition worldRelativeHome :: sys where
  "worldRelativeHome = world0\<lparr>os_Getenv := (\<lambda>n. if n = ''HOME'' then ''work'' else [])\<rparr>"

definition worldNoHome :: sys where
  "worldNoHome = world0\<lparr>os_Getenv := (\<lambda>n. [])\<rparr>"

text \<open>The same host when the \<^verbatim>\<open>go\<close> directory of every version exists (and the build
  succeeds), and when no directory can be created.\<close>

definition worldInstalled :: sys where
  "worldInstalled = world0\<lparr>os_Stat := (\<lambda>h p. None)\<rparr>"

definition worldReadOnly :: sys where
  "worldReadOnly = world0\<lparr>os_MkdirAll := (\<lambda>h p m. Some (Error ''permission denied''))\<rparr>"

section \<open>Properties of \<^verbatim>\<open>strings.Index\<close>\<close>

lemma indexFrom_eq:
  "indexFrom s ''='' i =
     (if CHR ''='' \<in> set s then i + int (length (takeWhile (\<lambda>c. c \<noteq> CHR ''='') s)) else - 1)"
  by (induction s arbitrary: i) auto

lemma Index_lt_1: "Index kv ''='' < 1 \<longleftrightarrow> (CHR ''='' \<notin> set kv \<or> take 1 kv = ''='')"
  by (cases kv) (auto simp: Index_def indexFrom_eq)

section \<open>The loop of \<^verbatim>\<open>dedupEnv\<close> and its invariant\<close>

lemma dedupLoop_Cons:
  "dedupLoop L c (kv # env) out saw =
     (if \<not> wellFormed kv then dedupLoop L c env (out @ [kv]) saw
      else case saw (envKey L c kv) of
             Some i \<Rightarrow> if i < length out then dedupLoop L c env (out[i := kv]) saw
                       else Inl IndexOutOfRange
           | None \<Rightarrow> dedupLoop L c env (out @ [kv]) (saw(envKey L c kv \<mapsto> length out)))"
  by (cases c) (simp_all add: wellFormed_def envKey_def Let_def split: option.split)

lemma dedupLoop_skip:
  "\<not> wellFormed kv \<Longrightarrow> dedupLoop L c (kv # env) out saw = dedupLoop L c env (out @ [kv]) saw"
  by (subst dedupLoop_Cons) simp

lemma dedupLoop_new:
  "wellFormed kv \<Longrightarrow> saw (envKey L c kv) = None \<Longrightarrow>
   dedupLoop L c (kv # env) out saw =
   dedupLoop L c env (out @ [kv]) (saw(envKey L c kv \<mapsto> length out))"
  by (subst dedupLoop_Cons) simp

lemma dedupLoop_dup:
  "wellFormed kv \<Longrightarrow> saw (envKey L c kv) = Some i \<Longrightarrow> i < length out \<Longrightarrow>
   dedupLoop L c (kv # env) out saw = dedupLoop L c env (out[i := kv]) saw"
  by (subst dedupLoop_Cons) simp

lemma sawInv_empty: "sawInv L c [] Map.empty"
  by (simp add: sawInv_def)

lemma sawInv_skip:
  assumes "sawInv L c out saw" "\<not> wellFormed kv"
  shows "sawInv L c (out @ [kv]) saw"
  using assms unfolding sawInv_def hasKey_def
  by (auto simp: nth_append less_Suc_eq)

lemma sawInv_new:
  assumes inv: "sawInv L c out saw" and wf: "wellFormed kv"
    and k: "saw (envKey L c kv) = None"
  shows "sawInv L c (out @ [kv]) (saw(envKey L c kv \<mapsto> length out))"
proof -
  let ?saw = "saw(envKey L c kv \<mapsto> length out)"
  have 1: "j < length (out @ [kv]) \<and> hasKey L c k' ((out @ [kv]) ! j)"
    if "?saw k' = Some j" for k' j
  proof (cases "k' = envKey L c kv")
    case True
    with that have "j = length out" by simp
    with True wf show ?thesis by (simp add: hasKey_def)
  next
    case False
    with that have "saw k' = Some j" by simp
    with inv have "j < length out" "hasKey L c k' (out ! j)" by (auto simp: sawInv_def)
    then show ?thesis by (simp add: nth_append)
  qed
  have 2: "?saw (envKey L c ((out @ [kv]) ! j)) = Some j"
    if "j < length (out @ [kv])" "wellFormed ((out @ [kv]) ! j)" for j
  proof (cases "j < length out")
    case True
    with that inv have s: "saw (envKey L c (out ! j)) = Some j"
      by (simp add: sawInv_def nth_append)
    with k have "envKey L c (out ! j) \<noteq> envKey L c kv" by auto
    with s True show ?thesis by (simp add: nth_append)
  next
    case False
    with that have "j = length out" by simp
    then show ?thesis by simp
  qed
  show ?thesis unfolding sawInv_def using 1 2 by blast
qed

lemma sawInv_dup:
  assumes inv: "sawInv L c out saw" and wf: "wellFormed kv"
    and k: "saw (envKey L c kv) = Some i"
  shows "sawInv L c (out[i := kv]) saw"
proof -
  have i: "i < length out" "envKey L c (out ! i) = envKey L c kv"
    using inv k by (auto simp: sawInv_def hasKey_def)
  have 1: "j < length (out[i := kv]) \<and> hasKey L c k' (out[i := kv] ! j)"
    if "saw k' = Some j" for k' j
  proof (cases "j = i")
    case True
    with that inv have "hasKey L c k' (out ! i)" by (simp add: sawInv_def)
    with i wf True show ?thesis by (simp add: hasKey_def)
  next
    case False
    with that inv show ?thesis by (simp add: sawInv_def)
  qed
  have 2: "saw (envKey L c (out[i := kv] ! j)) = Some j"
    if "j < length (out[i := kv])" "wellFormed (out[i := kv] ! j)" for j
  proof (cases "j = i")
    case True
    with i k show ?thesis by simp
  next
    case False
    with that inv show ?thesis by (simp add: sawInv_def)
  qed
  show ?thesis unfolding sawInv_def using 1 2 by blast
qed

lemma sawInv_no_key:
  assumes "sawInv L c out saw" "saw k = None"
  shows "\<not> list_ex (hasKey L c k) out"
proof
  assume "list_ex (hasKey L c k) out"
  then obtain i where "i < length out" "hasKey L c k (out ! i)"
    by (auto simp: list_ex_iff in_set_conv_nth)
  with assms show False by (auto simp: sawInv_def hasKey_def)
qed

lemma sawInv_update_eq_map:
  assumes inv: "sawInv L c out saw" and k: "saw k = Some i"
  shows "out[i := kv] = map (\<lambda>e. if hasKey L c k e then kv else e) out"
proof (rule nth_equalityI)
  show "length (out[i := kv]) = length (map (\<lambda>e. if hasKey L c k e then kv else e) out)"
    by simp
next
  fix j assume "j < length (out[i := kv])"
  then have j: "j < length out" by simp
  have i: "i < length out" "hasKey L c k (out ! i)"
    using inv k by (auto simp: sawInv_def)
  have "hasKey L c k (out ! j) \<longleftrightarrow> j = i"
  proof
    assume "hasKey L c k (out ! j)"
    then have "saw k = Some j" using inv j by (auto simp: sawInv_def hasKey_def)
    with k show "j = i" by simp
  next
    assume "j = i" with i show "hasKey L c k (out ! j)" by simp
  qed
  with j show "out[i := kv] ! j = map (\<lambda>e. if hasKey L c k e then kv else e) out ! j"
    by (simp add: nth_list_update)
qed

lemma dedupLoop_foldl:
  "sawInv L c out saw \<Longrightarrow> dedupLoop L c env out saw = Inr (foldl (dedupStep L c) out env)"
proof (induction env arbitrary: out saw)
  case Nil
  then show ?case by simp
next
  case (Cons kv env)
  note inv = Cons.prems
  show ?case
  proof (cases "wellFormed kv")
    case False
    then have step: "dedupStep L c out kv = out @ [kv]" by (simp add: dedupStep_def)
    have "dedupLoop L c (kv # env) out saw = dedupLoop L c env (out @ [kv]) saw"
      using False by (rule dedupLoop_skip)
    also have "\<dots> = Inr (foldl (dedupStep L c) (out @ [kv]) env)"
      by (rule Cons.IH[OF sawInv_skip[OF inv False]])
    finally show ?thesis using step by simp
  next
    case wf: True
    show ?thesis
    proof (cases "saw (envKey L c kv)")
      case None
      with wf inv have step: "dedupStep L c out kv = out @ [kv]"
        by (simp add: dedupStep_def sawInv_no_key)
      have "dedupLoop L c (kv # env) out saw =
            dedupLoop L c env (out @ [kv]) (saw(envKey L c kv \<mapsto> length out))"
        using wf None by (rule dedupLoop_new)
      also have "\<dots> = Inr (foldl (dedupStep L c) (out @ [kv]) env)"
        by (rule Cons.IH[OF sawInv_new[OF inv wf None]])
      finally show ?thesis using step by simp
    next
      case (Some i)
      with inv have i: "i < length out" "hasKey L c (envKey L c kv) (out ! i)"
        by (auto simp: sawInv_def)
      then have "list_ex (hasKey L c (envKey L c kv)) out"
        by (auto simp: list_ex_iff)
      with wf have step: "dedupStep L c out kv = out[i := kv]"
        using sawInv_update_eq_map[OF inv Some] by (simp add: dedupStep_def)
      have "dedupLoop L c (kv # env) out saw = dedupLoop L c env (out[i := kv]) saw"
        using wf Some i(1) by (rule dedupLoop_dup)
      also have "\<dots> = Inr (foldl (dedupStep L c) (out[i := kv]) env)"
        by (rule Cons.IH[OF sawInv_dup[OF inv wf Some]])
      finally show ?thesis using step by simp
    qed
  qed
qed

lemma dedupEnv_foldl: "dedupEnv L c env = Inr (foldl (dedupStep L c) [] env)"
  by (simp add: dedupEnv_def dedupLoop_foldl sawInv_empty)


lemma keysOf_append: "keysOf L c (xs @ ys) = keysOf L c xs @ keysOf L c ys"
  by (simp add: keysOf_def)

lemma keysOf_single: "keysOf L c [kv] = (if wellFormed kv then [envKey L c kv] else [])"
  by (simp add: keysOf_def)

lemma keysOf_map_repl:
  "wellFormed kv \<Longrightarrow>
   keysOf L c (map (\<lambda>e. if hasKey L c (envKey L c kv) e then kv else e) out) = keysOf L c out"
  by (induction out) (auto simp: keysOf_def hasKey_def)

lemma list_ex_hasKey: "list_ex (hasKey L c k) out \<longleftrightarrow> k \<in> set (keysOf L c out)"
  by (auto simp: list_ex_iff keysOf_def hasKey_def)

lemma dedupStep_skip: "\<not> wellFormed kv \<Longrightarrow> dedupStep L c out kv = out @ [kv]"
  by (simp add: dedupStep_def)

lemma dedupStep_new:
  "envKey L c kv \<notin> set (keysOf L c out) \<Longrightarrow> dedupStep L c out kv = out @ [kv]"
  by (simp add: dedupStep_def list_ex_hasKey)

lemma dedupStep_dup:
  "wellFormed kv \<Longrightarrow> envKey L c kv \<in> set (keysOf L c out) \<Longrightarrow>
   dedupStep L c out kv = map (\<lambda>e. if hasKey L c (envKey L c kv) e then kv else e) out"
  by (simp add: dedupStep_def list_ex_hasKey)

lemma dedupStep_cases:
  obtains (skip) "\<not> wellFormed kv" "dedupStep L c out kv = out @ [kv]"
  | (new) "wellFormed kv" "envKey L c kv \<notin> set (keysOf L c out)"
      "dedupStep L c out kv = out @ [kv]"
  | (dup) "wellFormed kv" "envKey L c kv \<in> set (keysOf L c out)"
      "dedupStep L c out kv = map (\<lambda>e. if hasKey L c (envKey L c kv) e then kv else e) out"
  using dedupStep_skip dedupStep_new dedupStep_dup by blast

lemma keysOf_step:
  "keysOf L c (dedupStep L c out kv) =
     (if wellFormed kv \<and> envKey L c kv \<notin> set (keysOf L c out)
      then keysOf L c out @ [envKey L c kv] else keysOf L c out)"
  by (cases rule: dedupStep_cases[of kv L c out])
     (simp_all add: keysOf_append keysOf_single keysOf_map_repl)

lemma firstOccurrences_snoc:
  "firstOccurrences (xs @ [x]) =
     (if x \<in> set xs then firstOccurrences xs else firstOccurrences xs @ [x])"
  by (simp add: firstOccurrences_def)

lemma set_firstOccurrences: "set (firstOccurrences xs) = set xs"
  by (simp add: firstOccurrences_def)

lemma distinct_firstOccurrences: "distinct (firstOccurrences xs)"
  by (simp add: firstOccurrences_def)

lemma keysOf_foldl:
  "keysOf L c (foldl (dedupStep L c) [] env) = firstOccurrences (keysOf L c env)"
proof (induction env rule: rev_induct)
  case Nil
  show ?case by (simp add: keysOf_def firstOccurrences_def)
next
  case (snoc kv env)
  then show ?case
    by (simp add: keysOf_step keysOf_append keysOf_single firstOccurrences_snoc
        set_firstOccurrences)
qed

lemma distinct_keysOf_foldl: "distinct (keysOf L c (foldl (dedupStep L c) [] env))"
  by (simp add: keysOf_foldl distinct_firstOccurrences)

lemma set_keysOf_foldl:
  "set (keysOf L c (foldl (dedupStep L c) [] env)) = set (keysOf L c env)"
  by (simp add: keysOf_foldl set_firstOccurrences)

lemma last_wins_foldl:
  "e \<in> set (foldl (dedupStep L c) [] env) \<Longrightarrow> wellFormed e \<Longrightarrow>
   e = last (filter (hasKey L c (envKey L c e)) env)"
proof (induction env arbitrary: e rule: rev_induct)
  case Nil
  then show ?case by simp
next
  case (snoc x xs)
  let ?out = "foldl (dedupStep L c) [] xs"
  have mem: "e \<in> set (dedupStep L c ?out x)" using snoc.prems(1) by simp
  have old: "e = last (filter (hasKey L c (envKey L c e)) (xs @ [x]))"
    if "e \<in> set ?out" "\<not> hasKey L c (envKey L c e) x"
    using that snoc.IH[OF that(1) snoc.prems(2)] by simp
  have fresh: "e = last (filter (hasKey L c (envKey L c e)) (xs @ [x]))" if "e = x"
    using that snoc.prems(2) by (simp add: hasKey_def)
  show ?case
  proof (cases rule: dedupStep_cases[of x L c ?out])
    case skip
    with mem snoc.prems(2) have e: "e \<in> set ?out" by auto
    from skip have "\<not> hasKey L c (envKey L c e) x" by (simp add: hasKey_def)
    with e show ?thesis by (rule old)
  next
    case new
    show ?thesis
    proof (cases "e = x")
      case True
      then show ?thesis by (rule fresh)
    next
      case False
      with mem new have e: "e \<in> set ?out" by simp
      with snoc.prems(2) have "envKey L c e \<in> set (keysOf L c ?out)"
        by (auto simp: keysOf_def)
      with new have "\<not> hasKey L c (envKey L c e) x" by (auto simp: hasKey_def)
      with e show ?thesis by (rule old)
    qed
  next
    case dup
    with mem obtain e' where e': "e' \<in> set ?out"
      "e = (if hasKey L c (envKey L c x) e' then x else e')" by auto
    show ?thesis
    proof (cases "hasKey L c (envKey L c x) e'")
      case True
      with e' have "e = x" by simp
      then show ?thesis by (rule fresh)
    next
      case False
      with e' have "e = e'" by simp
      with False e' snoc.prems(2) have "\<not> hasKey L c (envKey L c e) x"
        by (auto simp: hasKey_def)
      moreover from e' \<open>e = e'\<close> have "e \<in> set ?out" by simp
      ultimately show ?thesis by (rule old[rotated])
    qed
  qed
qed

lemma filter_hasKey_keysOf:
  "length (filter (hasKey L c k) xs) = length (filter (\<lambda>k'. k' = k) (keysOf L c xs))"
  by (induction xs) (auto simp: keysOf_def hasKey_def)

lemma distinct_filter_eq_length:
  "distinct ys \<Longrightarrow> length (filter (\<lambda>y. y = k) ys) = (if k \<in> set ys then 1 else 0)"
  by (induction ys) auto

lemma one_entry_per_key:
  assumes "k \<in> set (keysOf L c env)"
  shows "filter (hasKey L c k) (foldl (dedupStep L c) [] env) =
         [last (filter (hasKey L c k) env)]"
proof -
  let ?out = "foldl (dedupStep L c) [] env"
  have "length (filter (hasKey L c k) ?out) = 1"
    using assms
    by (simp add: filter_hasKey_keysOf distinct_filter_eq_length distinct_keysOf_foldl
        set_keysOf_foldl)
  then obtain e where e: "filter (hasKey L c k) ?out = [e]"
    by (cases "filter (hasKey L c k) ?out") auto
  then have "e \<in> set (filter (hasKey L c k) ?out)" by simp
  then have "e \<in> set ?out" "wellFormed e" "envKey L c e = k"
    by (auto simp: hasKey_def)
  with last_wins_foldl[of e L c env] have "e = last (filter (hasKey L c k) env)" by simp
  with e show ?thesis by simp
qed

lemma malformed_map_repl:
  "wellFormed kv \<Longrightarrow>
   filter (\<lambda>e. \<not> wellFormed e)
     (map (\<lambda>e. if hasKey L c (envKey L c kv) e then kv else e) out) =
   filter (\<lambda>e. \<not> wellFormed e) out"
  by (induction out) (auto simp: hasKey_def)

lemma malformed_step:
  "filter (\<lambda>e. \<not> wellFormed e) (dedupStep L c out kv) =
   filter (\<lambda>e. \<not> wellFormed e) out @ filter (\<lambda>e. \<not> wellFormed e) [kv]"
  by (cases rule: dedupStep_cases[of kv L c out]) (simp_all add: malformed_map_repl)

lemma malformed_foldl:
  "filter (\<lambda>e. \<not> wellFormed e) (foldl (dedupStep L c) out env) =
   filter (\<lambda>e. \<not> wellFormed e) out @ filter (\<lambda>e. \<not> wellFormed e) env"
  by (induction env arbitrary: out) (simp_all add: malformed_step)

lemma length_dedupStep: "length out \<le> length (dedupStep L c out kv)"
  by (simp add: dedupStep_def)

lemma keysOf_insert_malformed:
  "\<not> wellFormed kv \<Longrightarrow> keysOf L c (take n out @ kv # drop n out) = keysOf L c out"
proof -
  assume "\<not> wellFormed kv"
  then have "keysOf L c (take n out @ kv # drop n out) =
             keysOf L c (take n out) @ keysOf L c (drop n out)"
    by (simp add: keysOf_def)
  also have "\<dots> = keysOf L c (take n out @ drop n out)" by (simp only: keysOf_append)
  finally show ?thesis by simp
qed

lemma dedupStep_insert_malformed:
  assumes "\<not> wellFormed kv" "n \<le> length out"
  shows "dedupStep L c (take n out @ kv # drop n out) e =
         take n (dedupStep L c out e) @ kv # drop n (dedupStep L c out e)"
proof (cases rule: dedupStep_cases[of e L c out])
  case skip
  with assms show ?thesis by (simp add: dedupStep_skip)
next
  case new
  with assms show ?thesis by (simp add: dedupStep_new keysOf_insert_malformed)
next
  case dup
  from assms(1) have "\<not> hasKey L c (envKey L c e) kv" by (simp add: hasKey_def)
  with dup assms show ?thesis
    by (simp add: dedupStep_dup keysOf_insert_malformed take_map drop_map)
qed

lemma foldl_insert_malformed:
  "\<not> wellFormed kv \<Longrightarrow> n \<le> length out \<Longrightarrow>
   foldl (dedupStep L c) (take n out @ kv # drop n out) ys =
   take n (foldl (dedupStep L c) out ys) @ kv # drop n (foldl (dedupStep L c) out ys)"
proof (induction ys arbitrary: out)
  case Nil
  show ?case by simp
next
  case (Cons y ys)
  have "n \<le> length (dedupStep L c out y)"
    using Cons.prems(2) length_dedupStep[of out L c y] by simp
  with Cons.IH[OF Cons.prems(1), of "dedupStep L c out y"] Cons.prems show ?case
    by (simp add: dedupStep_insert_malformed)
qed

lemma foldl_malformed_inserted:
  assumes "\<not> wellFormed kv"
  shows "foldl (dedupStep L c) [] (xs @ kv # ys) =
         take (length (foldl (dedupStep L c) [] xs)) (foldl (dedupStep L c) [] (xs @ ys)) @ kv #
         drop (length (foldl (dedupStep L c) [] xs)) (foldl (dedupStep L c) [] (xs @ ys))"
proof -
  let ?ox = "foldl (dedupStep L c) [] xs"
  have "foldl (dedupStep L c) [] (xs @ kv # ys) = foldl (dedupStep L c) (?ox @ [kv]) ys"
    using assms by (simp add: dedupStep_skip)
  also have "?ox @ [kv] = take (length ?ox) ?ox @ kv # drop (length ?ox) ?ox" by simp
  also have "foldl (dedupStep L c) \<dots> ys =
      take (length ?ox) (foldl (dedupStep L c) ?ox ys) @ kv #
      drop (length ?ox) (foldl (dedupStep L c) ?ox ys)"
    by (rule foldl_insert_malformed[OF assms]) simp
  finally show ?thesis by simp
qed

lemma foldl_distinct_keys:
  "distinct (keysOf L c (xs @ ys)) \<Longrightarrow> foldl (dedupStep L c) xs ys = xs @ ys"
proof (induction ys arbitrary: xs)
  case Nil
  show ?case by simp
next
  case (Cons y ys)
  from Cons.prems have "\<not> wellFormed y \<or> envKey L c y \<notin> set (keysOf L c xs)"
    by (auto simp: keysOf_def)
  then have "dedupStep L c xs y = xs @ [y]"
    using dedupStep_skip dedupStep_new by blast
  moreover have "distinct (keysOf L c ((xs @ [y]) @ ys))" using Cons.prems by simp
  ultimately show ?case using Cons.IH[of "xs @ [y]"] by simp
qed

lemma foldl_idem:
  "foldl (dedupStep L c) [] (foldl (dedupStep L c) [] env) = foldl (dedupStep L c) [] env"
  using foldl_distinct_keys[of L c "[]" "foldl (dedupStep L c) [] env"]
  by (simp add: distinct_keysOf_foldl)

lemma foldl_overrides:
  "\<forall>x \<in> set s. wellFormed x \<and> envKey L c x \<in> set (keysOf L c out) \<Longrightarrow>
   foldl (dedupStep L c) out s =
   map (\<lambda>e. if wellFormed e \<and> envKey L c e \<in> set (keysOf L c s)
             then last (filter (hasKey L c (envKey L c e)) s) else e) out"
proof (induction s rule: rev_induct)
  case Nil
  show ?case by (simp add: keysOf_def)
next
  case (snoc x s)
  let ?g = "\<lambda>s e. if wellFormed e \<and> envKey L c e \<in> set (keysOf L c s)
             then last (filter (hasKey L c (envKey L c e)) s) else e"
  have IH: "foldl (dedupStep L c) out s = map (?g s) out" using snoc by simp
  have x: "wellFormed x" "envKey L c x \<in> set (keysOf L c out)" using snoc.prems by simp_all
  have g_key: "hasKey L c k (?g s e) = hasKey L c k e" for k e
  proof (cases "wellFormed e \<and> envKey L c e \<in> set (keysOf L c s)")
    case True
    then have "filter (hasKey L c (envKey L c e)) s \<noteq> []"
      by (auto simp: keysOf_def hasKey_def filter_empty_conv)
    then have "last (filter (hasKey L c (envKey L c e)) s) \<in> set (filter (hasKey L c (envKey L c e)) s)"
      by (rule last_in_set)
    then have "hasKey L c (envKey L c e) (last (filter (hasKey L c (envKey L c e)) s))" by simp
    with True show ?thesis by (auto simp: hasKey_def)
  next
    case False
    then show ?thesis by auto
  qed
  have "keysOf L c (map (?g s) out) = keysOf L c out"
  proof (induction out)
    case Nil
    show ?case by simp
  next
    case (Cons a out)
    have "wellFormed (?g s a) = wellFormed a" "wellFormed a \<Longrightarrow> envKey L c (?g s a) = envKey L c a"
      using g_key[of "envKey L c a" a] g_key[of "envKey L c (?g s a)" a]
      by (auto simp: hasKey_def)
    with Cons show ?case by (simp add: keysOf_def)
  qed
  with x have "dedupStep L c (map (?g s) out) x =
     map (\<lambda>e. if hasKey L c (envKey L c x) e then x else e) (map (?g s) out)"
    by (simp add: dedupStep_dup)
  also have "\<dots> = map (?g (s @ [x])) out"
  proof (rule list.map_cong0[THEN trans[OF list.map_comp]])
    fix e assume "e \<in> set out"
    show "((\<lambda>e. if hasKey L c (envKey L c x) e then x else e) \<circ> ?g s) e = ?g (s @ [x]) e"
    proof (cases "hasKey L c (envKey L c x) e")
      case True
      then have "hasKey L c (envKey L c x) (?g s e)"
        using g_key[of "envKey L c x" e] by blast
      with True x show ?thesis by (simp add: hasKey_def keysOf_append keysOf_single)
    next
      case False
      then have "\<not> hasKey L c (envKey L c x) (?g s e)"
        using g_key[of "envKey L c x" e] by blast
      moreover from False have "wellFormed e \<Longrightarrow> \<not> hasKey L c (envKey L c e) x"
        by (auto simp: hasKey_def)
      moreover from False x have "wellFormed e \<Longrightarrow> envKey L c e \<noteq> envKey L c x"
        by (auto simp: hasKey_def)
      ultimately show ?thesis by (auto simp: keysOf_append keysOf_single)
    qed
  qed
  finally show ?case using IH by simp
qed


section \<open>Claims about \<^verbatim>\<open>dedupEnv\<close>\<close>

text \<open>
  C4. For every environment list and either value of the flag, \<^verbatim>\<open>dedupEnv\<close> returns (it does
  not panic) a list in which (a) no two well-formed entries have the same key under the
  chosen comparison, (b) every well-formed entry is the last entry of the input with its
  key, so the later value wins, and (c) the keys stand in the order of their first
  occurrences in the input: a later duplicate overwrites the earlier entry where it stands.
\<close>

theorem dedupEnv_distinct_last_wins_order:
  "\<exists>out. dedupEnv ToLower caseInsensitive env = Inr out \<and>
     distinct (keysOf ToLower caseInsensitive out) \<and>
     (\<forall>kv \<in> set out. wellFormed kv \<longrightarrow>
        kv = last (filter (hasKey ToLower caseInsensitive (envKey ToLower caseInsensitive kv)) env)) \<and>
     keysOf ToLower caseInsensitive out = firstOccurrences (keysOf ToLower caseInsensitive env)"
proof -
  let ?out = "foldl (dedupStep ToLower caseInsensitive) [] env"
  have "dedupEnv ToLower caseInsensitive env = Inr ?out" by (rule dedupEnv_foldl)
  moreover have "distinct (keysOf ToLower caseInsensitive ?out)"
    by (rule distinct_keysOf_foldl)
  moreover have "\<forall>kv \<in> set ?out. wellFormed kv \<longrightarrow>
        kv = last (filter (hasKey ToLower caseInsensitive (envKey ToLower caseInsensitive kv)) env)"
    using last_wins_foldl by blast
  moreover have "keysOf ToLower caseInsensitive ?out =
        firstOccurrences (keysOf ToLower caseInsensitive env)"
    by (rule keysOf_foldl)
  ultimately show ?thesis by blast
qed

theorem dedupEnv_distinct_last_wins_order_witness:
  "dedupEnv asciiToLower False [''A=1'', ''junk'', ''B=2'', ''A=3''] = Inr [''A=3'', ''junk'', ''B=2''] \<and>
   ''A=3'' \<in> set [''A=3'', ''junk'', ''B=2''] \<and> wellFormed ''A=3'' \<and>
   ''A=3'' = last (filter (hasKey asciiToLower False (envKey asciiToLower False ''A=3''))
                    [''A=1'', ''junk'', ''B=2'', ''A=3'']) \<and>
   keysOf asciiToLower False [''A=3'', ''junk'', ''B=2''] = [''A'', ''B'']"
  using dedupEnv_distinct_last_wins_order[of asciiToLower False "[''A=1'', ''junk'', ''B=2'', ''A=3'']"]
  by (simp add: dedupEnv_def Index_def wellFormed_def envKey_def hasKey_def keysOf_def)

text \<open>
  C5. When the input holds an entry keyed \<open>Path\<close> and an entry keyed \<open>PATH\<close>: with
  \<open>caseInsensitive = true\<close> both have the key \<open>path\<close> and the result holds exactly one entry
  with that key (the last such entry of the input); with \<open>caseInsensitive = false\<close> the
  result holds exactly one entry keyed \<open>Path\<close> and exactly one keyed \<open>PATH\<close>, so both are
  retained.
\<close>

theorem dedupEnv_Path_PATH:
  assumes "a \<in> set env" "hasKey asciiToLower False ''Path'' a"
    and "b \<in> set env" "hasKey asciiToLower False ''PATH'' b"
  shows "(\<exists>out. dedupEnv asciiToLower True env = Inr out \<and>
            hasKey asciiToLower True ''path'' a \<and> hasKey asciiToLower True ''path'' b \<and>
            filter (hasKey asciiToLower True ''path'') out =
              [last (filter (hasKey asciiToLower True ''path'') env)]) \<and>
         (\<exists>out. dedupEnv asciiToLower False env = Inr out \<and>
            filter (hasKey asciiToLower False ''Path'') out =
              [last (filter (hasKey asciiToLower False ''Path'') env)] \<and>
            filter (hasKey asciiToLower False ''PATH'') out =
              [last (filter (hasKey asciiToLower False ''PATH'') env)])"
proof -
  have a: "hasKey asciiToLower True ''path'' a"
    using assms(2) by (auto simp: hasKey_def envKey_def asciiToLower_def toLowerByte_def)
  have b: "hasKey asciiToLower True ''path'' b"
    using assms(4) by (auto simp: hasKey_def envKey_def asciiToLower_def toLowerByte_def)
  have "''path'' \<in> set (keysOf asciiToLower True env)"
    using assms(1) a by (force simp: keysOf_def hasKey_def)
  moreover have "''Path'' \<in> set (keysOf asciiToLower False env)"
    using assms(1,2) by (force simp: keysOf_def hasKey_def)
  moreover have "''PATH'' \<in> set (keysOf asciiToLower False env)"
    using assms(3,4) by (force simp: keysOf_def hasKey_def)
  ultimately show ?thesis
    using a b by (simp add: dedupEnv_foldl one_entry_per_key)
qed

theorem dedupEnv_Path_PATH_witness:
  "''Path=a'' \<in> set [''Path=a'', ''PATH=b''] \<and> hasKey asciiToLower False ''Path'' ''Path=a'' \<and>
   ''PATH=b'' \<in> set [''Path=a'', ''PATH=b''] \<and> hasKey asciiToLower False ''PATH'' ''PATH=b'' \<and>
   dedupEnv asciiToLower True [''Path=a'', ''PATH=b''] = Inr [''PATH=b''] \<and>
   dedupEnv asciiToLower False [''Path=a'', ''PATH=b''] = Inr [''Path=a'', ''PATH=b'']"
proof -
  have h: "''Path=a'' \<in> set [''Path=a'', ''PATH=b'']"
    "hasKey asciiToLower False ''Path'' ''Path=a''"
    "''PATH=b'' \<in> set [''Path=a'', ''PATH=b'']"
    "hasKey asciiToLower False ''PATH'' ''PATH=b''"
    by (simp_all add: hasKey_def wellFormed_def envKey_def Index_def)
  show ?thesis
    using h dedupEnv_Path_PATH[OF h]
    by (simp add: dedupEnv_def Index_def asciiToLower_def toLowerByte_def)
qed

text \<open>
  C6. \<^verbatim>\<open>dedupEnv\<close> is idempotent: applied to its own result it returns that result. In
  particular, when the overrides \<open>ovr\<close> are well-formed and \<open>out\<close> is the composition of a
  base with them, composing \<open>out\<close> with the same overrides again gives \<open>out\<close> again; \<open>out\<close>
  holds exactly one entry for each override key, which is the last override with that key,
  and its keys stand in the order in which they were first introduced.
\<close>

theorem dedupEnv_idempotent:
  "(\<exists>out. dedupEnv ToLower c env = Inr out \<and> dedupEnv ToLower c out = Inr out) \<and>
   ((\<forall>x \<in> set ovr. wellFormed x) \<longrightarrow>
    (\<exists>out. dedupEnv ToLower c (base @ ovr) = Inr out \<and>
       dedupEnv ToLower c (out @ ovr) = Inr out \<and>
       (\<forall>x \<in> set ovr. filter (hasKey ToLower c (envKey ToLower c x)) out =
                        [last (filter (hasKey ToLower c (envKey ToLower c x)) ovr)]) \<and>
       keysOf ToLower c out = firstOccurrences (keysOf ToLower c (base @ ovr))))"
proof (intro conjI impI)
  show "\<exists>out. dedupEnv ToLower c env = Inr out \<and> dedupEnv ToLower c out = Inr out"
    by (simp add: dedupEnv_foldl foldl_idem)
next
  assume wf: "\<forall>x \<in> set ovr. wellFormed x"
  let ?out = "foldl (dedupStep ToLower c) [] (base @ ovr)"
  have keys: "envKey ToLower c x \<in> set (keysOf ToLower c ovr)" if "x \<in> set ovr" for x
    using that wf by (auto simp: keysOf_def)
  have nonempty: "filter (hasKey ToLower c k) ovr \<noteq> []" if "k \<in> set (keysOf ToLower c ovr)" for k
    using that by (auto simp: keysOf_def hasKey_def filter_empty_conv)
  have one: "filter (hasKey ToLower c (envKey ToLower c x)) ?out =
             [last (filter (hasKey ToLower c (envKey ToLower c x)) ovr)]" if "x \<in> set ovr" for x
  proof -
    have "envKey ToLower c x \<in> set (keysOf ToLower c (base @ ovr))"
      using keys[OF that] by (simp add: keysOf_append)
    then have "filter (hasKey ToLower c (envKey ToLower c x)) ?out =
               [last (filter (hasKey ToLower c (envKey ToLower c x)) (base @ ovr))]"
      by (rule one_entry_per_key)
    with nonempty[OF keys[OF that]] show ?thesis by simp
  qed
  have pre: "\<forall>x \<in> set ovr. wellFormed x \<and> envKey ToLower c x \<in> set (keysOf ToLower c ?out)"
    using wf keys by (simp add: set_keysOf_foldl keysOf_append del: foldl_append)
  have "foldl (dedupStep ToLower c) [] (?out @ ovr) =
        foldl (dedupStep ToLower c) (foldl (dedupStep ToLower c) [] ?out) ovr"
    by (rule foldl_append)
  also have "\<dots> = foldl (dedupStep ToLower c) ?out ovr"
    by (simp only: foldl_idem)
  also have "\<dots> = map (\<lambda>e. if wellFormed e \<and> envKey ToLower c e \<in> set (keysOf ToLower c ovr)
             then last (filter (hasKey ToLower c (envKey ToLower c e)) ovr) else e) ?out"
    by (rule foldl_overrides[OF pre])
  also have "\<dots> = ?out"
  proof (rule map_idI)
    fix e assume e: "e \<in> set ?out"
    show "(if wellFormed e \<and> envKey ToLower c e \<in> set (keysOf ToLower c ovr)
             then last (filter (hasKey ToLower c (envKey ToLower c e)) ovr) else e) = e"
    proof (cases "wellFormed e \<and> envKey ToLower c e \<in> set (keysOf ToLower c ovr)")
      case True
      then have "wellFormed e" by simp
      with e have "e = last (filter (hasKey ToLower c (envKey ToLower c e)) (base @ ovr))"
        by (rule last_wins_foldl)
      with nonempty[of "envKey ToLower c e"] True show ?thesis by simp
    next
      case False
      then show ?thesis by auto
    qed
  qed
  finally have again: "foldl (dedupStep ToLower c) [] (?out @ ovr) = ?out" .
  show "\<exists>out. dedupEnv ToLower c (base @ ovr) = Inr out \<and>
       dedupEnv ToLower c (out @ ovr) = Inr out \<and>
       (\<forall>x \<in> set ovr. filter (hasKey ToLower c (envKey ToLower c x)) out =
                        [last (filter (hasKey ToLower c (envKey ToLower c x)) ovr)]) \<and>
       keysOf ToLower c out = firstOccurrences (keysOf ToLower c (base @ ovr))"
    using again one by (simp add: dedupEnv_foldl keysOf_foldl del: foldl_append)
qed

theorem dedupEnv_idempotent_witness:
  "''GOROOT=/r'' \<in> set [''GOROOT=/r'', ''PATH=/r/bin''] \<and> wellFormed ''GOROOT=/r'' \<and>
   wellFormed ''PATH=/r/bin'' \<and>
   dedupEnv asciiToLower False ([''PATH=/bin'', ''HOME=/u''] @ [''GOROOT=/r'', ''PATH=/r/bin'']) =
     Inr [''PATH=/r/bin'', ''HOME=/u'', ''GOROOT=/r''] \<and>
   dedupEnv asciiToLower False
     ([''PATH=/r/bin'', ''HOME=/u'', ''GOROOT=/r''] @ [''GOROOT=/r'', ''PATH=/r/bin'']) =
     Inr [''PATH=/r/bin'', ''HOME=/u'', ''GOROOT=/r''] \<and>
   dedupEnv asciiToLower False [''PATH=/r/bin'', ''HOME=/u'', ''GOROOT=/r''] =
     Inr [''PATH=/r/bin'', ''HOME=/u'', ''GOROOT=/r'']"
  using dedupEnv_idempotent[of asciiToLower False "[''PATH=/bin'', ''HOME=/u'', ''GOROOT=/r'', ''PATH=/r/bin'']"
      "[''GOROOT=/r'', ''PATH=/r/bin'']" "[''PATH=/bin'', ''HOME=/u'']"]
  by (simp add: dedupEnv_def Index_def wellFormed_def)

text \<open>
  C10. The entries that \<^verbatim>\<open>dedupEnv\<close> exempts from de-duplication are exactly those with no
  \<open>=\<close> at all or with a \<open>=\<close> at index 0. All of them reach the result verbatim, in their
  order and as often as they occur; and such an entry keeps its place: putting it into the
  input after a prefix \<open>xs\<close> puts it into the result right after the entries that \<open>xs\<close>
  contributes and changes nothing else.
\<close>

theorem dedupEnv_malformed_pass_through:
  "(\<not> wellFormed kv \<longleftrightarrow> (CHR ''='' \<notin> set kv \<or> take 1 kv = ''='')) \<and>
   (\<exists>out. dedupEnv ToLower c env = Inr out \<and>
      filter (\<lambda>e. \<not> wellFormed e) out = filter (\<lambda>e. \<not> wellFormed e) env) \<and>
   (\<not> wellFormed kv \<longrightarrow>
      (\<exists>ox out. dedupEnv ToLower c xs = Inr ox \<and> dedupEnv ToLower c (xs @ ys) = Inr out \<and>
         dedupEnv ToLower c (xs @ kv # ys) =
           Inr (take (length ox) out @ kv # drop (length ox) out)))"
proof (intro conjI impI)
  show "\<not> wellFormed kv \<longleftrightarrow> (CHR ''='' \<notin> set kv \<or> take 1 kv = ''='')"
    by (simp only: wellFormed_def Index_lt_1 not_not)
next
  show "\<exists>out. dedupEnv ToLower c env = Inr out \<and>
      filter (\<lambda>e. \<not> wellFormed e) out = filter (\<lambda>e. \<not> wellFormed e) env"
    by (simp add: dedupEnv_foldl malformed_foldl)
next
  assume "\<not> wellFormed kv"
  then have "foldl (dedupStep ToLower c) [] (xs @ kv # ys) =
         take (length (foldl (dedupStep ToLower c) [] xs)) (foldl (dedupStep ToLower c) [] (xs @ ys)) @ kv #
         drop (length (foldl (dedupStep ToLower c) [] xs)) (foldl (dedupStep ToLower c) [] (xs @ ys))"
    by (rule foldl_malformed_inserted)
  then show "\<exists>ox out. dedupEnv ToLower c xs = Inr ox \<and> dedupEnv ToLower c (xs @ ys) = Inr out \<and>
         dedupEnv ToLower c (xs @ kv # ys) =
           Inr (take (length ox) out @ kv # drop (length ox) out)"
    by (simp only: dedupEnv_foldl sum.inject simp_thms ex_simps)
qed

theorem dedupEnv_malformed_pass_through_witness:
  "\<not> wellFormed ''=C:=C:'' \<and> \<not> wellFormed ''junk'' \<and>
   dedupEnv asciiToLower True [''A=1'', ''=C:=C:''] = Inr [''A=1'', ''=C:=C:''] \<and>
   dedupEnv asciiToLower True ([''A=1'', ''=C:=C:''] @ [''junk'', ''a=2'']) =
     Inr [''a=2'', ''=C:=C:'', ''junk''] \<and>
   dedupEnv asciiToLower True ([''A=1'', ''=C:=C:''] @ ''=C:=C:'' # [''junk'', ''a=2'']) =
     Inr [''a=2'', ''=C:=C:'', ''=C:=C:'', ''junk'']"
  using dedupEnv_malformed_pass_through[of "''=C:=C:''" asciiToLower True "[]"
      "[''A=1'', ''=C:=C:'']" "[''junk'', ''a=2'']"]
  by (simp add: dedupEnv_def Index_def wellFormed_def asciiToLower_def toLowerByte_def)

section \<open>Root resolution\<close>

lemma homedir_cases:
  "homedir w =
     (if os_Getenv w (homeVar w) \<noteq> [] then Inr (os_Getenv w (homeVar w))
      else if GOOS w \<noteq> ''plan9'' \<and> GOOS w \<noteq> ''windows'' \<and>
              (\<exists>u. user_Current w = Inr u \<and> HomeDir u \<noteq> [])
      then Inr (HomeDir (projr (user_Current w)))
      else Inl (Error (if GOOS w = ''plan9'' \<or> GOOS w = ''windows''
                       then ''can't find user home directory; %USERPROFILE% is empty''
                       else ''can't find user home directory; $HOME is empty'')))"
  by (auto simp: homedir_def homeVar_def Let_def split: sum.splits)

section \<open>The events of \<^verbatim>\<open>fetch\<close> and \<^verbatim>\<open>fetchify\<close>\<close>

lemma fetch_events: "fetch w h a b = (res, evs) \<Longrightarrow> filter (\<lambda>e. \<not> fetchEvent e) evs = []"
  by (auto simp: fetch_def Let_def split: option.splits sum.splits prod.splits)

lemma fetch_Inr:
  "fetch w h a b = (Inr f, evs) \<Longrightarrow> fname f = b \<and> fpos f = 0"
  by (auto simp: fetch_def Let_def split: option.splits sum.splits prod.splits)

text \<open>What \<^verbatim>\<open>fetchify\<close> does besides fetching, case by case.\<close>

lemma fetchify_skeleton:
  assumes run: "fetchify w h goURL fp = (res, evs)"
  obtains (keyError) err where "res = Some err"
      "filter (\<lambda>e. \<not> fetchEvent e) evs = [EvReadArmoredKeyRing (Some err)]"
  | (fetchError) err where "res = Some err"
      "filter (\<lambda>e. \<not> fetchEvent e) evs = [EvReadArmoredKeyRing None]"
  | (signatureError) err tbz sig where "res = Some err"
      "filter (\<lambda>e. \<not> fetchEvent e) evs =
         [EvReadArmoredKeyRing None, EvCheckSignature tbz sig (Some err),
          EvClose (fname sig), EvClose (fname tbz)]"
  | (seekError) err tbz sig where "res = Some err"
      "filter (\<lambda>e. \<not> fetchEvent e) evs =
         [EvReadArmoredKeyRing None, EvCheckSignature tbz sig None,
          EvPrintln ''Signature OK.'', EvClose (fname sig), EvClose (fname tbz)]"
  | (untar) tbz sig hh kr n m where
      "fpos tbz = 0" "fpos sig = 0"
      "openpgp_CheckArmoredDetachedSignature w hh kr tbz sig = (None, n, m)"
      "filter (\<lambda>e. \<not> fetchEvent e) evs =
         [EvReadArmoredKeyRing None, EvCheckSignature tbz sig None,
          EvPrintln ''Signature OK.'',
          EvUntar (tbz\<lparr>fpos := 0\<rparr>) (advance sig m) (path_Dir w fp) res,
          EvClose (fname sig), EvClose (fname tbz)]"
proof (cases "openpgp_ReadArmoredKeyRing w (pubKey w)")
  case (Inl err)
  with run have "res = Some err" "evs = [EvReadArmoredKeyRing (Some err)]"
    by (auto simp: fetchify_def Let_def)
  then show ?thesis using keyError by simp
next
  case (Inr kr)
  let ?h1 = "h @ [EvReadArmoredKeyRing None]"
  obtain r1 ev1 where f1: "fetch w ?h1 goURL fp = (r1, ev1)"
    by (cases "fetch w ?h1 goURL fp")
  note ev1 = fetch_events[OF f1]
  show ?thesis
  proof (cases r1)
    case (Inl err)
    with run Inr f1 have "res = Some err" "evs = [EvReadArmoredKeyRing None] @ ev1"
      by (auto simp: fetchify_def Let_def)
    then show ?thesis using fetchError ev1 by simp
  next
    case tbz: (Inr tbz)
    let ?h2 = "h @ [EvReadArmoredKeyRing None] @ ev1"
    obtain r2 ev2 where f2: "fetch w ?h2 (goURL @ ''.asc'') (fp @ ''.asc'') = (r2, ev2)"
      by (cases "fetch w ?h2 (goURL @ ''.asc'') (fp @ ''.asc'')")
    note ev2 = fetch_events[OF f2]
    show ?thesis
    proof (cases r2)
      case (Inl err)
      with run Inr f1 tbz f2 have "res = Some err" "evs = [EvReadArmoredKeyRing None] @ ev1 @ ev2"
        by (auto simp: fetchify_def Let_def)
      then show ?thesis using fetchError ev1 ev2 by simp
    next
      case sig: (Inr sig)
      let ?h3 = "h @ [EvReadArmoredKeyRing None] @ ev1 @ ev2"
      have pos: "fpos tbz = 0" "fpos sig = 0"
        using fetch_Inr f1 f2 tbz sig by blast+
      obtain r3 n m where chk: "openpgp_CheckArmoredDetachedSignature w ?h3 kr tbz sig = (r3, n, m)"
        by (cases "openpgp_CheckArmoredDetachedSignature w ?h3 kr tbz sig")
      show ?thesis
      proof (cases r3)
        case (Some err)
        with run Inr f1 tbz f2 sig chk have "res = Some err"
          "evs = [EvReadArmoredKeyRing None] @ ev1 @ ev2 @
                 [EvCheckSignature tbz sig (Some err), EvClose (fname sig), EvClose (fname tbz)]"
          by (auto simp: fetchify_def advance_def Let_def)
        then show ?thesis using signatureError[of err tbz sig] ev1 ev2 by simp
      next
        case None
        let ?h4 = "?h3 @ [EvCheckSignature tbz sig None, EvPrintln ''Signature OK.'']"
        show ?thesis
        proof (cases "file_Seek w ?h4 (advance tbz n)")
          case (Some err)
          with run Inr f1 tbz f2 sig chk None have "res = Some err"
            "evs = [EvReadArmoredKeyRing None] @ ev1 @ ev2 @
                   [EvCheckSignature tbz sig None, EvPrintln ''Signature OK.'',
                    EvSeek (advance tbz n) (Some err), EvClose (fname sig), EvClose (fname tbz)]"
            by (auto simp: fetchify_def advance_def Let_def)
          then show ?thesis using seekError[of err tbz sig] ev1 ev2 by simp
        next
          case seek: None
          with run Inr f1 tbz f2 sig chk None have
            "evs = [EvReadArmoredKeyRing None] @ ev1 @ ev2 @
                   [EvCheckSignature tbz sig None, EvPrintln ''Signature OK.'',
                    EvSeek (advance tbz n) None,
                    EvUntar (tbz\<lparr>fpos := 0\<rparr>) (advance sig m) (path_Dir w fp) res,
                    EvClose (fname sig), EvClose (fname tbz)]"
            by (auto simp: fetchify_def advance_def Let_def)
          then show ?thesis using untar[OF pos chk[unfolded None]] ev1 ev2 by simp
        qed
      qed
    qed
  qed
qed

section \<open>The two phases of \<^verbatim>\<open>installVer\<close>\<close>

lemma installVer_phases:
  "installVer w h root version =
     (case downloadPhase w h root version of
        (Some err, e2) \<Rightarrow> (Some err, e2)
      | (None, e2) \<Rightarrow> buildPhase w h root version e2)"
  unfolding installVer_def downloadPhase_def buildPhase_def Let_def by (rule refl)

lemma downloadPhase_cases:
  assumes run: "downloadPhase w h root version = (res, evs)"
  obtains (installed) "os_Stat w h (filepath_Join w [root, version, ''go'']) = None"
      "res = None" "evs = [EvStat (filepath_Join w [root, version, ''go'']) None]"
  | (mkdirError) serr err where
      "res = Some (Errorf ''failed to create source directory: '' err)"
      "evs = [EvStat (filepath_Join w [root, version, ''go'']) (Some serr),
              EvMkdirAll (filepath_Join w [root, version]) 493 (Some err)]"
  | (fetchified) serr rf ev hh where
      "fetchify w hh (''https://dl.google.com/go/go'' @ version @ ''.src.tar.gz'')
         (filepath_Join w [root, version, ''go'' @ version @ ''.src.tar.gz'']) = (rf, ev)"
      "res = map_option (Errorf ''failed to verify: '') rf"
      "evs = [EvStat (filepath_Join w [root, version, ''go'']) (Some serr),
              EvMkdirAll (filepath_Join w [root, version]) 493 None] @ ev"
proof (cases "os_Stat w h (filepath_Join w [root, version, ''go''])")
  case None
  with run show ?thesis using installed by (auto simp: downloadPhase_def Let_def)
next
  case (Some serr)
  let ?h1 = "h @ [EvStat (filepath_Join w [root, version, ''go'']) (Some serr)]"
  show ?thesis
  proof (cases "os_MkdirAll w ?h1 (filepath_Join w [root, version]) 493")
    case mk: (Some err)
    with run Some show ?thesis using mkdirError[of err serr]
      by (auto simp: downloadPhase_def Let_def)
  next
    case mk: None
    let ?h2 = "?h1 @ [EvMkdirAll (filepath_Join w [root, version]) 493 None]"
    obtain rf ev where f: "fetchify w ?h2 (''https://dl.google.com/go/go'' @ version @ ''.src.tar.gz'')
         (filepath_Join w [root, version, ''go'' @ version @ ''.src.tar.gz'']) = (rf, ev)"
      by (cases "fetchify w ?h2 (''https://dl.google.com/go/go'' @ version @ ''.src.tar.gz'')
         (filepath_Join w [root, version, ''go'' @ version @ ''.src.tar.gz''])")
    with run Some mk have "res = map_option (Errorf ''failed to verify: '') rf"
      "evs = [EvStat (filepath_Join w [root, version, ''go'']) (Some serr),
              EvMkdirAll (filepath_Join w [root, version]) 493 None] @ ev"
      by (auto simp: downloadPhase_def Let_def split: option.splits)
    with f show ?thesis using fetchified by blast
  qed
qed

lemma buildPhase_events:
  "buildPhase w h root version e2 = (res, evs) \<Longrightarrow>
   \<exists>bev. evs = e2 @ bev \<and> filter (\<lambda>e. \<not> buildEvent e) bev = []"
  by (auto simp: buildPhase_def Let_def split: sum.splits option.splits if_splits)

lemma fetchify_verification_failed:
  assumes run: "fetchify w h goURL fp = (rf, ev)"
    and mem: "e \<in> set ev"
    and e: "e = EvReadArmoredKeyRing (Some err) \<or> (\<exists>t s. e = EvCheckSignature t s (Some err))"
  shows "rf = Some err \<and> (\<forall>t s d r. EvUntar t s d r \<notin> set ev)"
proof -
  from e have "\<not> fetchEvent e" by auto
  with mem have m: "e \<in> set (filter (\<lambda>e. \<not> fetchEvent e) ev)" by simp
  have u: "EvUntar t s d r \<in> set ev \<longleftrightarrow> EvUntar t s d r \<in> set (filter (\<lambda>e. \<not> fetchEvent e) ev)"
    for t s d r by simp
  from run show ?thesis
  proof (cases rule: fetchify_skeleton)
    case (keyError err')
    with m e show ?thesis unfolding u by auto
  next
    case (fetchError err')
    with m e show ?thesis unfolding u by auto
  next
    case (signatureError err' tbz sig)
    with m e show ?thesis unfolding u by auto
  next
    case (seekError err' tbz sig)
    with m e show ?thesis unfolding u by auto
  next
    case (untar tbz sig hh kr n m')
    with m e show ?thesis unfolding u by auto
  qed
qed

section \<open>Concrete runs\<close>

lemmas world_defs =
  world0_def worldBadSignature_def worldInstalledBuildFails_def world404_def
  worldRelativeHome_def worldNoHome_def worldInstalled_def worldReadOnly_def

lemmas path_defs = unixJoin_def unixClean_def unixDir_def unixIsAbs_def

lemma run_fetch_404:
  "fetch world404 [] ''https://dl.google.com/go/go1.99.src.tar.gz'' ''/r/1.99/go1.99.src.tar.gz'' =
     (Inr \<lparr>fname = ''/r/1.99/go1.99.src.tar.gz'', fdata = ''404 page not found'', fpos = 0\<rparr>,
      [EvPrintf ''Fetching %q\<newline>'' [''https://dl.google.com/go/go1.99.src.tar.gz''],
       EvCreate ''/r/1.99/go1.99.src.tar.gz'' None,
       EvHttpGet ''https://dl.google.com/go/go1.99.src.tar.gz''
         (Inr \<lparr>StatusCode = 404, Body = ''404 page not found''\<rparr>),
       EvCopy \<lparr>fname = ''/r/1.99/go1.99.src.tar.gz'', fdata = ''404 page not found'', fpos = 18\<rparr> None,
       EvSeek \<lparr>fname = ''/r/1.99/go1.99.src.tar.gz'', fdata = ''404 page not found'', fpos = 18\<rparr> None])"
  by (simp add: fetch_def Let_def world_defs)

lemma run_fetch_ok:
  "fetch world0 [] ''https://dl.google.com/go/go1.99.src.tar.gz'' ''/r/1.99/go1.99.src.tar.gz'' =
     (Inr \<lparr>fname = ''/r/1.99/go1.99.src.tar.gz'', fdata = ''TARBALL'', fpos = 0\<rparr>,
      [EvPrintf ''Fetching %q\<newline>'' [''https://dl.google.com/go/go1.99.src.tar.gz''],
       EvCreate ''/r/1.99/go1.99.src.tar.gz'' None,
       EvHttpGet ''https://dl.google.com/go/go1.99.src.tar.gz''
         (Inr \<lparr>StatusCode = 200, Body = ''TARBALL''\<rparr>),
       EvCopy \<lparr>fname = ''/r/1.99/go1.99.src.tar.gz'', fdata = ''TARBALL'', fpos = 7\<rparr> None,
       EvSeek \<lparr>fname = ''/r/1.99/go1.99.src.tar.gz'', fdata = ''TARBALL'', fpos = 7\<rparr> None])"
  by (simp add: fetch_def Let_def world_defs)

lemma run_fetchify_ok:
  "fetchify world0 [] ''https://dl.google.com/go/go1.99.src.tar.gz'' ''/r/1.99/go1.99.src.tar.gz'' =
     (None,
      [EvReadArmoredKeyRing None,
       EvPrintf ''Fetching %q\<newline>'' [''https://dl.google.com/go/go1.99.src.tar.gz''],
       EvCreate ''/r/1.99/go1.99.src.tar.gz'' None,
       EvHttpGet ''https://dl.google.com/go/go1.99.src.tar.gz''
         (Inr \<lparr>StatusCode = 200, Body = ''TARBALL''\<rparr>),
       EvCopy \<lparr>fname = ''/r/1.99/go1.99.src.tar.gz'', fdata = ''TARBALL'', fpos = 7\<rparr> None,
       EvSeek \<lparr>fname = ''/r/1.99/go1.99.src.tar.gz'', fdata = ''TARBALL'', fpos = 7\<rparr> None,
       EvPrintf ''Fetching %q\<newline>'' [''https://dl.google.com/go/go1.99.src.tar.gz.asc''],
       EvCreate ''/r/1.99/go1.99.src.tar.gz.asc'' None,
       EvHttpGet ''https://dl.google.com/go/go1.99.src.tar.gz.asc''
         (Inr \<lparr>StatusCode = 200, Body = ''SIG''\<rparr>),
       EvCopy \<lparr>fname = ''/r/1.99/go1.99.src.tar.gz.asc'', fdata = ''SIG'', fpos = 3\<rparr> None,
       EvSeek \<lparr>fname = ''/r/1.99/go1.99.src.tar.gz.asc'', fdata = ''SIG'', fpos = 3\<rparr> None,
       EvCheckSignature
         \<lparr>fname = ''/r/1.99/go1.99.src.tar.gz'', fdata = ''TARBALL'', fpos = 0\<rparr>
         \<lparr>fname = ''/r/1.99/go1.99.src.tar.gz.asc'', fdata = ''SIG'', fpos = 0\<rparr> None,
       EvPrintln ''Signature OK.'',
       EvSeek \<lparr>fname = ''/r/1.99/go1.99.src.tar.gz'', fdata = ''TARBALL'', fpos = 7\<rparr> None,
       EvUntar
         \<lparr>fname = ''/r/1.99/go1.99.src.tar.gz'', fdata = ''TARBALL'', fpos = 0\<rparr>
         \<lparr>fname = ''/r/1.99/go1.99.src.tar.gz.asc'', fdata = ''SIG'', fpos = 3\<rparr>
         ''/r/1.99'' None,
       EvClose ''/r/1.99/go1.99.src.tar.gz.asc'',
       EvClose ''/r/1.99/go1.99.src.tar.gz''])"
  by (simp add: fetchify_def fetch_def Let_def advance_def world_defs path_defs)

lemma run_installVer_bad_signature:
  "installVer worldBadSignature [] ''/home/u/sdk/gover'' ''1.99'' =
     (Some (Error ''failed to verify: openpgp: invalid signature: RSA verification failure''),
      [EvStat ''/home/u/sdk/gover/1.99/go'' (Some (Error ''no such file or directory'')),
       EvMkdirAll ''/home/u/sdk/gover/1.99'' 493 None,
       EvReadArmoredKeyRing None,
       EvPrintf ''Fetching %q\<newline>'' [''https://dl.google.com/go/go1.99.src.tar.gz''],
       EvCreate ''/home/u/sdk/gover/1.99/go1.99.src.tar.gz'' None,
       EvHttpGet ''https://dl.google.com/go/go1.99.src.tar.gz''
         (Inr \<lparr>StatusCode = 200, Body = ''TARBALL''\<rparr>),
       EvCopy \<lparr>fname = ''/home/u/sdk/gover/1.99/go1.99.src.tar.gz'', fdata = ''TARBALL'', fpos = 7\<rparr>
         None,
       EvSeek \<lparr>fname = ''/home/u/sdk/gover/1.99/go1.99.src.tar.gz'', fdata = ''TARBALL'', fpos = 7\<rparr>
         None,
       EvPrintf ''Fetching %q\<newline>'' [''https://dl.google.com/go/go1.99.src.tar.gz.asc''],
       EvCreate ''/home/u/sdk/gover/1.99/go1.99.src.tar.gz.asc'' None,
       EvHttpGet ''https://dl.google.com/go/go1.99.src.tar.gz.asc''
         (Inr \<lparr>StatusCode = 200, Body = ''SIG''\<rparr>),
       EvCopy \<lparr>fname = ''/home/u/sdk/gover/1.99/go1.99.src.tar.gz.asc'', fdata = ''SIG'', fpos = 3\<rparr>
         None,
       EvSeek \<lparr>fname = ''/home/u/sdk/gover/1.99/go1.99.src.tar.gz.asc'', fdata = ''SIG'', fpos = 3\<rparr>
         None,
       EvCheckSignature
         \<lparr>fname = ''/home/u/sdk/gover/1.99/go1.99.src.tar.gz'', fdata = ''TARBALL'', fpos = 0\<rparr>
         \<lparr>fname = ''/home/u/sdk/gover/1.99/go1.99.src.tar.gz.asc'', fdata = ''SIG'', fpos = 0\<rparr>
         (Some (Error ''openpgp: invalid signature: RSA verification failure'')),
       EvClose ''/home/u/sdk/gover/1.99/go1.99.src.tar.gz.asc'',
       EvClose ''/home/u/sdk/gover/1.99/go1.99.src.tar.gz''])"
  by (simp add: installVer_def fetchify_def fetch_def Let_def advance_def Errorf_def
      world_defs path_defs)

lemma run_installVer_installed:
  "installVer worldInstalled [] ''/home/u/sdk/gover'' ''1.99'' =
     (None,
      [EvStat ''/home/u/sdk/gover/1.99/go'' None,
       EvRun \<lparr>cmdPath = ''/home/u/sdk/gover/1.99/go/src/make.bash'', cmdArgs = [],
               cmdDir = ''/home/u/sdk/gover/1.99/go/src'', cmdEnv = None\<rparr> None])"
  by (simp add: installVer_def Let_def makeScript_def world_defs path_defs)

lemma run_installVer_build_fails:
  "installVer worldInstalledBuildFails [] ''/home/u/sdk/gover'' ''1.99'' =
     (Some (Error ''failed to build go: exit status 2''),
      [EvStat ''/home/u/sdk/gover/1.99/go'' None,
       EvRun \<lparr>cmdPath = ''/home/u/sdk/gover/1.99/go/src/make.bash'', cmdArgs = [],
               cmdDir = ''/home/u/sdk/gover/1.99/go/src'', cmdEnv = None\<rparr>
         (Some (ExitError ''exit status 2''))])"
  by (simp add: installVer_def Let_def makeScript_def Errorf_def world_defs path_defs)

lemma run_goroot_ok: "goroot world0 ''gover'' = Inr ''/home/u/sdk/gover''"
  by (simp add: goroot_def homedir_def Let_def world_defs path_defs)

lemma run_main_list:
  "main world0 [''gover'', ''list''] =
     (Exit 0,
      [EvMkdirAll ''/home/u/sdk/gover'' 493 None,
       EvPledge ''stdio tty unveil rpath cpath wpath proc dns inet fattr exec'',
       EvUnveil ''/etc'' ''r'', EvUnveil ''/home/u/sdk/gover'' ''rwxc'', EvUnveilBlock,
       EvReadDir ''/home/u/sdk/gover'' (Inr [''1.20'', ''1.21'']),
       EvPrintln ''1.20'', EvPrintln ''1.21''])"
  by (simp add: main_def goroot_def homedir_def Let_def world_defs path_defs)

lemma run_main_read_only:
  "main worldReadOnly [''gover'', ''list''] =
     (Exit 1,
      [EvMkdirAll ''/home/u/sdk/gover'' 493 (Some (Error ''permission denied'')),
       EvFatalf ''failed to create gover directory: %v\<newline>'' [''permission denied'']])"
  by (simp add: main_def goroot_def homedir_def Let_def world_defs path_defs)

section \<open>Claims about root resolution, the fetcher and the installer\<close>

text \<open>
  C1. Whenever an install meets a failed verification, that is, the trusted key does not
  parse or the detached-signature check of the fetched archive returns an error,
  \<^verbatim>\<open>installVer\<close> returns the error \<open>failed to verify: \<dots>\<close> and \<^verbatim>\<open>Untar\<close> is never called, so
  no unpacked tree is produced.
\<close>

theorem installVer_failed_verification:
  assumes run: "installVer w h root version = (res, evs)"
    and mem: "e \<in> set evs"
    and e: "e = EvReadArmoredKeyRing (Some err) \<or> (\<exists>tbz sig. e = EvCheckSignature tbz sig (Some err))"
  shows "res = Some (Errorf ''failed to verify: '' err) \<and>
         (\<forall>tbz sig dir r. EvUntar tbz sig dir r \<notin> set evs)"
proof -
  obtain rd e2 where d: "downloadPhase w h root version = (rd, e2)"
    by (cases "downloadPhase w h root version")
  have nb: "\<not> buildEvent e" using e by auto
  have build: "e \<in> set e2" if "buildPhase w h root version e2 = (res, evs)"
  proof -
    from buildPhase_events[OF that] obtain bev where
      bev: "evs = e2 @ bev" "filter (\<lambda>e. \<not> buildEvent e) bev = []" by blast
    from bev(2) nb have "e \<notin> set bev" by (auto simp: filter_empty_conv)
    with mem bev(1) show ?thesis by simp
  qed
  from d show ?thesis
  proof (cases rule: downloadPhase_cases)
    case installed
    with run d have "buildPhase w h root version e2 = (res, evs)"
      by (simp add: installVer_phases)
    from build[OF this] installed e show ?thesis by auto
  next
    case (mkdirError serr err')
    with run d have "evs = e2" by (simp add: installVer_phases)
    with mem mkdirError e show ?thesis by auto
  next
    case (fetchified serr rf ev hh)
    show ?thesis
    proof (cases rf)
      case None
      with run d fetchified have "buildPhase w h root version e2 = (res, evs)"
        by (simp add: installVer_phases)
      from build[OF this] fetchified e have "e \<in> set ev" by auto
      from fetchify_verification_failed[OF fetchified(1) this e] None show ?thesis by simp
    next
      case (Some ferr)
      with run d fetchified have r: "res = Some (Errorf ''failed to verify: '' ferr)" "evs = e2"
        by (auto simp: installVer_phases)
      with mem fetchified e have "e \<in> set ev" by auto
      from fetchify_verification_failed[OF fetchified(1) this e] Some r fetchified
      show ?thesis by auto
    qed
  qed
qed

theorem installVer_failed_verification_witness:
  "EvCheckSignature
     \<lparr>fname = ''/home/u/sdk/gover/1.99/go1.99.src.tar.gz'', fdata = ''TARBALL'', fpos = 0\<rparr>
     \<lparr>fname = ''/home/u/sdk/gover/1.99/go1.99.src.tar.gz.asc'', fdata = ''SIG'', fpos = 0\<rparr>
     (Some (Error ''openpgp: invalid signature: RSA verification failure''))
     \<in> set (snd (installVer worldBadSignature [] ''/home/u/sdk/gover'' ''1.99'')) \<and>
   fst (installVer worldBadSignature [] ''/home/u/sdk/gover'' ''1.99'') =
     Some (Errorf ''failed to verify: ''
             (Error ''openpgp: invalid signature: RSA verification failure''))"
proof -
  let ?e = "EvCheckSignature
     \<lparr>fname = ''/home/u/sdk/gover/1.99/go1.99.src.tar.gz'', fdata = ''TARBALL'', fpos = 0\<rparr>
     \<lparr>fname = ''/home/u/sdk/gover/1.99/go1.99.src.tar.gz.asc'', fdata = ''SIG'', fpos = 0\<rparr>
     (Some (Error ''openpgp: invalid signature: RSA verification failure''))"
  let ?run = "installVer worldBadSignature [] ''/home/u/sdk/gover'' ''1.99''"
  have run: "?run = (fst ?run, snd ?run)" by simp
  have mem: "?e \<in> set (snd ?run)" by (simp add: run_installVer_bad_signature)
  have e: "?e = EvReadArmoredKeyRing (Some (Error ''openpgp: invalid signature: RSA verification failure'')) \<or>
           (\<exists>tbz sig. ?e = EvCheckSignature tbz sig
              (Some (Error ''openpgp: invalid signature: RSA verification failure'')))"
    by simp
  from installVer_failed_verification[OF run mem e] mem show ?thesis by blast
qed

text \<open>
  C2 as the code has it. When the \<^verbatim>\<open>go\<close> directory of the version exists, \<^verbatim>\<open>installVer\<close>
  creates no directory, fetches nothing, verifies nothing and extracts nothing; but it
  does not return at once: it goes on to run the build script (on Windows after asking
  \<^verbatim>\<open>go env GOROOT\<close>) and returns the outcome of that.
\<close>

theorem installVer_already_installed:
  assumes stat: "os_Stat w h (filepath_Join w [root, version, ''go'']) = None"
    and run: "installVer w h root version = (res, evs)"
  shows "filter downloadEvent evs = [] \<and>
         (\<exists>bev. evs = EvStat (filepath_Join w [root, version, ''go'']) None # bev \<and>
            (if GOOS w = ''windows'' then
               (\<exists>err. bev = [EvOutput [''go'', ''env'', ''GOROOT''] (Inl err)] \<and>
                  res = Some (Errorf ''failed to detect an existing go installation for bootstrap: '' err)) \<or>
               (\<exists>out c r. bev = [EvOutput [''go'', ''env'', ''GOROOT''] (Inr out), EvRun c r] \<and>
                  cmdPath c = filepath_Join w [root, version, ''go'', ''src'', makeScript w] \<and>
                  res = map_option (Errorf ''failed to build go: '') r)
             else
               (\<exists>c r. bev = [EvRun c r] \<and>
                  cmdPath c = filepath_Join w [root, version, ''go'', ''src'', makeScript w] \<and>
                  res = map_option (Errorf ''failed to build go: '') r)))"
  using run stat
  by (auto simp: installVer_def Let_def split: sum.splits option.splits if_splits)

theorem installVer_already_installed_witness:
  "os_Stat worldInstalled [] (filepath_Join worldInstalled [''/home/u/sdk/gover'', ''1.99'', ''go'']) = None \<and>
   installVer worldInstalled [] ''/home/u/sdk/gover'' ''1.99'' =
     (None,
      [EvStat ''/home/u/sdk/gover/1.99/go'' None,
       EvRun \<lparr>cmdPath = ''/home/u/sdk/gover/1.99/go/src/make.bash'', cmdArgs = [],
               cmdDir = ''/home/u/sdk/gover/1.99/go/src'', cmdEnv = None\<rparr> None]) \<and>
   filter downloadEvent (snd (installVer worldInstalled [] ''/home/u/sdk/gover'' ''1.99'')) = []"
proof -
  have stat: "os_Stat worldInstalled []
      (filepath_Join worldInstalled [''/home/u/sdk/gover'', ''1.99'', ''go'']) = None"
    by (simp add: world_defs)
  from installVer_already_installed[OF stat run_installVer_installed] stat run_installVer_installed
  show ?thesis by simp
qed

text \<open>C2 as stated fails: with the directory present and a build script that fails,
  \<^verbatim>\<open>installVer\<close> runs the script and returns an error.\<close>

theorem installVer_already_installed_counterexample:
  "os_Stat worldInstalledBuildFails [] ''/home/u/sdk/gover/1.99/go'' = None \<and>
   installVer worldInstalledBuildFails [] ''/home/u/sdk/gover'' ''1.99'' =
     (Some (Error ''failed to build go: exit status 2''),
      [EvStat ''/home/u/sdk/gover/1.99/go'' None,
       EvRun \<lparr>cmdPath = ''/home/u/sdk/gover/1.99/go/src/make.bash'', cmdArgs = [],
               cmdDir = ''/home/u/sdk/gover/1.99/go/src'', cmdEnv = None\<rparr>
         (Some (ExitError ''exit status 2''))])"
  by (simp add: run_installVer_build_fails) (simp add: world_defs)

text \<open>
  C3 as the code has it. Whenever \<^verbatim>\<open>fetchify\<close> calls \<^verbatim>\<open>Untar\<close>, the signature check before
  it succeeded on two handles that both stood at offset zero, and the archive handle passed
  to \<^verbatim>\<open>Untar\<close> stands at offset zero again. The signature handle is not repositioned: it
  stands where the check left it, \<open>m\<close> bytes further (at most at the end of the file).
\<close>

theorem fetchify_untar_cursors:
  assumes run: "fetchify w h goURL fp = (res, evs)"
    and mem: "EvUntar tbz sig dir r \<in> set evs"
  shows "fpos tbz = 0 \<and>
         (\<exists>tbz0 sig0 hh kr n m.
            EvCheckSignature tbz0 sig0 None \<in> set evs \<and> fpos tbz0 = 0 \<and> fpos sig0 = 0 \<and>
            openpgp_CheckArmoredDetachedSignature w hh kr tbz0 sig0 = (None, n, m) \<and>
            tbz = tbz0 \<and> sig = sig0\<lparr>fpos := min (length (fdata sig0)) m\<rparr>)"
proof -
  have u: "EvUntar tbz sig dir r \<in> set (filter (\<lambda>e. \<not> fetchEvent e) evs)"
    using mem by simp
  have c: "EvCheckSignature t s None \<in> set evs \<longleftrightarrow>
           EvCheckSignature t s None \<in> set (filter (\<lambda>e. \<not> fetchEvent e) evs)" for t s
    by simp
  from run show ?thesis
  proof (cases rule: fetchify_skeleton)
    case (keyError err)
    with u show ?thesis by simp
  next
    case (fetchError err)
    with u show ?thesis by simp
  next
    case (signatureError err tbz0 sig0)
    with u show ?thesis by simp
  next
    case (seekError err tbz0 sig0)
    with u show ?thesis by simp
  next
    case (untar tbz0 sig0 hh kr n m)
    from u untar(4) have eq: "tbz = tbz0\<lparr>fpos := 0\<rparr>" "sig = advance sig0 m" by simp_all
    from untar(1) have "tbz0\<lparr>fpos := 0\<rparr> = tbz0" by simp
    with eq untar(1,2) have "fpos tbz = 0" "tbz = tbz0"
      "sig = sig0\<lparr>fpos := min (length (fdata sig0)) m\<rparr>"
      by (simp_all add: advance_def)
    moreover have "EvCheckSignature tbz0 sig0 None \<in> set evs"
      unfolding c untar(4) by simp
    ultimately show ?thesis using untar(1,2,3) by blast
  qed
qed

theorem fetchify_untar_cursors_witness:
  "EvUntar
     \<lparr>fname = ''/r/1.99/go1.99.src.tar.gz'', fdata = ''TARBALL'', fpos = 0\<rparr>
     \<lparr>fname = ''/r/1.99/go1.99.src.tar.gz.asc'', fdata = ''SIG'', fpos = 3\<rparr> ''/r/1.99'' None
     \<in> set (snd (fetchify world0 [] ''https://dl.google.com/go/go1.99.src.tar.gz''
                    ''/r/1.99/go1.99.src.tar.gz'')) \<and>
   fpos \<lparr>fname = ''/r/1.99/go1.99.src.tar.gz'', fdata = ''TARBALL'', fpos = 0\<rparr> = 0"
proof -
  let ?run = "fetchify world0 [] ''https://dl.google.com/go/go1.99.src.tar.gz''
                ''/r/1.99/go1.99.src.tar.gz''"
  have run: "?run = (fst ?run, snd ?run)" by simp
  have mem: "EvUntar
     \<lparr>fname = ''/r/1.99/go1.99.src.tar.gz'', fdata = ''TARBALL'', fpos = 0\<rparr>
     \<lparr>fname = ''/r/1.99/go1.99.src.tar.gz.asc'', fdata = ''SIG'', fpos = 3\<rparr> ''/r/1.99'' None
     \<in> set (snd ?run)"
    by (simp add: run_fetchify_ok)
  from fetchify_untar_cursors[OF run mem] mem show ?thesis by blast
qed

text \<open>C3 as stated fails: in a run where the check succeeds after reading the three bytes
  of the signature file, \<^verbatim>\<open>Untar\<close> is called while the signature handle stands at offset 3.\<close>

theorem fetchify_untar_cursors_counterexample:
  "snd (fetchify world0 [] ''https://dl.google.com/go/go1.99.src.tar.gz''
          ''/r/1.99/go1.99.src.tar.gz'') ! 14 =
     EvUntar
       \<lparr>fname = ''/r/1.99/go1.99.src.tar.gz'', fdata = ''TARBALL'', fpos = 0\<rparr>
       \<lparr>fname = ''/r/1.99/go1.99.src.tar.gz.asc'', fdata = ''SIG'', fpos = 3\<rparr> ''/r/1.99'' None \<and>
   fpos \<lparr>fname = ''/r/1.99/go1.99.src.tar.gz.asc'', fdata = ''SIG'', fpos = 3\<rparr> \<noteq> 0"
  by (simp add: run_fetchify_ok)

text \<open>
  C7 as the code has it. \<^verbatim>\<open>goroot\<close> returns a path exactly when a non-empty home is found:
  the value of the platform's home variable, taken as it is, or, on the default platform
  family only and when \<open>HOME\<close> is empty, the non-empty home directory of the current user.
  The path is \<^verbatim>\<open>filepath.Join(home, "sdk", version)\<close>. In every other case it fails with the
  error \<open>failed to get home directory: \<dots>\<close>; it never falls back to another path. Nothing
  checks that the home is absolute.
\<close>

theorem goroot_home_or_error:
  "(goroot w version = Inr p \<longrightarrow>
      (\<exists>home. home \<noteq> [] \<and> p = filepath_Join w [home, ''sdk'', version] \<and>
         (home = os_Getenv w (homeVar w) \<or>
          (GOOS w \<noteq> ''plan9'' \<and> GOOS w \<noteq> ''windows'' \<and> os_Getenv w ''HOME'' = [] \<and>
           (\<exists>u. user_Current w = Inr u \<and> HomeDir u = home))))) \<and>
   (isl (goroot w version) \<longleftrightarrow>
      (os_Getenv w (homeVar w) = [] \<and>
       (GOOS w = ''plan9'' \<or> GOOS w = ''windows'' \<or>
        (\<forall>u. user_Current w = Inr u \<longrightarrow> HomeDir u = [])))) \<and>
   (goroot w version = Inl err \<longrightarrow>
      (\<exists>herr. homedir w = Inl herr \<and> err = Errorf ''failed to get home directory: '' herr))"
  by (auto simp: goroot_def homedir_cases homeVar_def split: sum.splits if_splits)

theorem goroot_home_or_error_witness:
  "goroot world0 ''gover'' = Inr ''/home/u/sdk/gover'' \<and>
   os_Getenv world0 (homeVar world0) = ''/home/u'' \<and>
   os_Getenv worldNoHome (homeVar worldNoHome) = [] \<and>
   user_Current worldNoHome = Inl (Error ''user: Current not implemented'') \<and>
   goroot worldNoHome ''gover'' =
     Inl (Errorf ''failed to get home directory: ''
            (Error ''can't find user home directory; $HOME is empty''))"
  using goroot_home_or_error[of world0 "''gover''" "''/home/u/sdk/gover''"]
    goroot_home_or_error[of worldNoHome "''gover''" _
      "Errorf ''failed to get home directory: ''
         (Error ''can't find user home directory; $HOME is empty'')"]
  by (simp add: goroot_def homedir_def homeVar_def Let_def world_defs path_defs)

text \<open>C7 as stated fails: with \<open>HOME=work\<close> the result is the relative path
  \<open>work/sdk/gover\<close>.\<close>

theorem goroot_home_or_error_counterexample:
  "goroot worldRelativeHome ''gover'' = Inr ''work/sdk/gover'' \<and>
   os_Getenv worldRelativeHome ''HOME'' = ''work'' \<and>
   \<not> unixIsAbs ''work/sdk/gover''"
  by (simp add: goroot_def homedir_def Let_def world_defs path_defs)

text \<open>
  C8 as the code has it. \<^verbatim>\<open>fetch\<close> returns an error exactly when one of its four calls
  does: \<^verbatim>\<open>os.Create\<close>, \<^verbatim>\<open>http.Get\<close>, \<^verbatim>\<open>io.Copy\<close> or \<^verbatim>\<open>Seek\<close>. In every other case, whatever the
  status code of the response, it returns the handle of the file at path \<open>b\<close> that holds
  the whole response body, with the cursor at offset zero.
\<close>

theorem fetch_fails_iff:
  assumes run: "fetch w h a b = (res, evs)"
  shows "(isl res \<longleftrightarrow>
            (\<exists>err. EvCreate b (Some err) \<in> set evs \<or> EvHttpGet a (Inl err) \<in> set evs \<or>
                   (\<exists>f. EvCopy f (Some err) \<in> set evs) \<or> (\<exists>f. EvSeek f (Some err) \<in> set evs))) \<and>
         (\<forall>f. res = Inr f \<longrightarrow>
            (\<exists>fResp. EvHttpGet a (Inr fResp) \<in> set evs \<and>
                      f = \<lparr>fname = b, fdata = Body fResp, fpos = 0\<rparr>))"
  using run
  by (auto simp: fetch_def Let_def split: option.splits sum.splits prod.splits)

theorem fetch_fails_iff_witness:
  "fetch world0 [] ''https://dl.google.com/go/go1.99.src.tar.gz'' ''/r/1.99/go1.99.src.tar.gz'' =
     (Inr \<lparr>fname = ''/r/1.99/go1.99.src.tar.gz'', fdata = ''TARBALL'', fpos = 0\<rparr>,
      [EvPrintf ''Fetching %q\<newline>'' [''https://dl.google.com/go/go1.99.src.tar.gz''],
       EvCreate ''/r/1.99/go1.99.src.tar.gz'' None,
       EvHttpGet ''https://dl.google.com/go/go1.99.src.tar.gz''
         (Inr \<lparr>StatusCode = 200, Body = ''TARBALL''\<rparr>),
       EvCopy \<lparr>fname = ''/r/1.99/go1.99.src.tar.gz'', fdata = ''TARBALL'', fpos = 7\<rparr> None,
       EvSeek \<lparr>fname = ''/r/1.99/go1.99.src.tar.gz'', fdata = ''TARBALL'', fpos = 7\<rparr> None]) \<and>
   \<not> isl (fst (fetch world0 [] ''https://dl.google.com/go/go1.99.src.tar.gz''
                  ''/r/1.99/go1.99.src.tar.gz''))"
  using fetch_fails_iff[OF run_fetch_ok] run_fetch_ok by simp

text \<open>C8 as stated fails: a response with status 404 is not an error of \<^verbatim>\<open>fetch\<close>; its body
  is written to the file and the handle is returned.\<close>

theorem fetch_fails_iff_counterexample:
  "fetch world404 [] ''https://dl.google.com/go/go1.99.src.tar.gz'' ''/r/1.99/go1.99.src.tar.gz'' =
     (Inr \<lparr>fname = ''/r/1.99/go1.99.src.tar.gz'', fdata = ''404 page not found'', fpos = 0\<rparr>,
      [EvPrintf ''Fetching %q\<newline>'' [''https://dl.google.com/go/go1.99.src.tar.gz''],
       EvCreate ''/r/1.99/go1.99.src.tar.gz'' None,
       EvHttpGet ''https://dl.google.com/go/go1.99.src.tar.gz''
         (Inr \<lparr>StatusCode = 404, Body = ''404 page not found''\<rparr>),
       EvCopy \<lparr>fname = ''/r/1.99/go1.99.src.tar.gz'', fdata = ''404 page not found'', fpos = 18\<rparr> None,
       EvSeek \<lparr>fname = ''/r/1.99/go1.99.src.tar.gz'', fdata = ''404 page not found'', fpos = 18\<rparr> None])"
  by (rule run_fetch_404)

text \<open>
  C9 as the code has it. Once the root is resolved, the first thing \<^verbatim>\<open>main\<close> does is
  \<^verbatim>\<open>os.MkdirAll(root, 0755)\<close>, before any other call and so before any version-specific
  operation; when that call fails the process logs the failure and exits with status 1,
  having done nothing else. The mode is \<open>0755\<close>: it also grants read and search to group
  and others.
\<close>

theorem main_creates_root_first:
  assumes root: "goroot w ''gover'' = Inr root"
    and run: "main w args = (ex, evs)"
  shows "(\<exists>rest. evs = EvMkdirAll root 493 (os_MkdirAll w [] root 493) # rest) \<and>
         (\<forall>err. os_MkdirAll w [] root 493 = Some err \<longrightarrow>
            ex = Exit 1 \<and>
            evs = [EvMkdirAll root 493 (Some err),
                   EvFatalf ''failed to create gover directory: %v\<newline>'' [errMsg err]])"
proof (cases "os_MkdirAll w [] root 493")
  case None
  let ?e1 = "[EvMkdirAll root 493 None,
             EvPledge ''stdio tty unveil rpath cpath wpath proc dns inet fattr exec'',
             EvUnveil ''/etc'' ''r'', EvUnveil root ''rwxc'', EvUnveilBlock]"
  consider (usage) "length args = 1" | (empty) "length args = 0"
    | (download) "length args \<ge> 2" "args ! 1 = ''download''"
    | (list) "length args \<ge> 2" "args ! 1 \<noteq> ''download''" "args ! 1 = ''list''"
    | (launch) "length args \<ge> 2" "args ! 1 \<noteq> ''download''" "args ! 1 \<noteq> ''list''"
    by linarith
  then have "\<exists>rest. snd (main w args) = EvMkdirAll root 493 None # rest"
  proof cases
    case usage
    with root None show ?thesis by (simp add: main_def)
  next
    case empty
    with root None show ?thesis by (simp add: main_def)
  next
    case download
    obtain r ev where "installVer w ?e1 root (args ! 2) = (r, ev)"
      by (cases "installVer w ?e1 root (args ! 2)")
    with download root None show ?thesis
      by (cases r) (simp_all add: main_def Let_def)
  next
    case list
    with root None show ?thesis
      by (simp add: main_def Let_def split: sum.split)
  next
    case launch
    with root None show ?thesis
      by (simp add: main_def Let_def split: sum.split option.split error.split)
  qed
  with run None show ?thesis by simp
next
  case (Some err)
  with root run show ?thesis by (auto simp: main_def Let_def)
qed

theorem main_creates_root_first_witness:
  "goroot world0 ''gover'' = Inr ''/home/u/sdk/gover'' \<and>
   hd (snd (main world0 [''gover'', ''list''])) = EvMkdirAll ''/home/u/sdk/gover'' 493 None \<and>
   os_MkdirAll worldReadOnly [] ''/home/u/sdk/gover'' 493 = Some (Error ''permission denied'') \<and>
   main worldReadOnly [''gover'', ''list''] =
     (Exit 1,
      [EvMkdirAll ''/home/u/sdk/gover'' 493 (Some (Error ''permission denied'')),
       EvFatalf ''failed to create gover directory: %v\<newline>'' [''permission denied'']])"
proof -
  have r0: "goroot world0 ''gover'' = Inr ''/home/u/sdk/gover''" by (rule run_goroot_ok)
  have r1: "goroot worldReadOnly ''gover'' = Inr ''/home/u/sdk/gover''"
    by (simp add: goroot_def homedir_def Let_def world_defs path_defs)
  have m: "os_MkdirAll worldReadOnly [] ''/home/u/sdk/gover'' 493 = Some (Error ''permission denied'')"
    "os_MkdirAll world0 [] ''/home/u/sdk/gover'' 493 = None"
    by (simp_all add: world_defs)
  from main_creates_root_first[OF r0 run_main_list] main_creates_root_first[OF r1 run_main_read_only]
    r0 m run_main_list run_main_read_only
  show ?thesis by simp
qed

text \<open>C9 as stated fails on the permissions: the mode the root is created with is not
  owner-only.\<close>

theorem main_creates_root_first_counterexample:
  "hd (snd (main world0 [''gover'', ''list''])) = EvMkdirAll ''/home/u/sdk/gover'' 493 None \<and>
   \<not> ownerOnly 493"
  by (simp add: run_main_list ownerOnly_def)


end
